theory Spec2Isabelle
  imports Main "HOL-Library.Log_Nat"
begin

section \<open>Python values\<close>

text \<open>
  A Python \<open>str\<close> is a sequence of Unicode code points; it is modelled as a list of
  code points (\<open>nat\<close>).  Literals of the source are written \<open>lit ''...''\<close>.
\<close>

type_synonym pystr = "nat list"

definition lit :: "string \<Rightarrow> pystr" where
  "lit s = map of_char s"

text \<open>
  \<open>str.lower()\<close> maps the string code point by code point.  An ASCII code point is
  mapped by the ASCII rule (\<open>A..Z\<close> to \<open>a..z\<close>, anything else to itself).  A
  non-ASCII code point is mapped by the interpreter's Unicode case tables, to one or more
  code points and for the capital sigma depending on its context; that table is the
  parameter \<open>U\<close>, applied to the whole string and the position.
\<close>

definition ascii_lower :: "nat \<Rightarrow> nat" where
  "ascii_lower c = (if 65 \<le> c \<and> c \<le> 90 then c + 32 else c)"

definition lower :: "(pystr \<Rightarrow> nat \<Rightarrow> pystr) \<Rightarrow> pystr \<Rightarrow> pystr" where
  "lower U s =
     concat (map (\<lambda>i. if s ! i < 128 then [ascii_lower (s ! i)] else U s i) [0..<length s])"

text \<open>\<open>s.replace(a, b)\<close> for one-character \<open>a\<close> and \<open>b\<close>.\<close>

definition replace :: "nat \<Rightarrow> nat \<Rightarrow> pystr \<Rightarrow> pystr" where
  "replace a b s = map (\<lambda>c. if c = a then b else c) s"

text \<open>The character class \<open>[a-z0-9_]\<close> and \<open>re.sub(r"[^a-z0-9_]", "", s)\<close>.\<close>

definition word_char :: "nat \<Rightarrow> bool" where
  "word_char c = ((97 \<le> c \<and> c \<le> 122) \<or> (48 \<le> c \<and> c \<le> 57) \<or> c = 95)"

definition re_sub_strip :: "pystr \<Rightarrow> pystr" where
  "re_sub_strip s = filter word_char s"

text \<open>
  \<^verbatim>\<open>
  def normalize_table_name(keyword, location):
      safe = f"{keyword}_{location}".lower().replace(" ", "_")
      return re.sub(r"[^a-z0-9_]", "", safe)
  \<close>
\<close>

definition normalize_table_name ::
  "(pystr \<Rightarrow> nat \<Rightarrow> pystr) \<Rightarrow> pystr \<Rightarrow> pystr \<Rightarrow> pystr" where
  "normalize_table_name U keyword location =
     (let safe = replace 32 95 (lower U (keyword @ lit ''_'' @ location))
      in re_sub_strip safe)"

text \<open>\<open>str(n)\<close> of a non-negative integer, as an f-string renders it.\<close>

fun digits :: "nat \<Rightarrow> pystr" where
  "digits n = (if n < 10 then [48 + n] else digits (n div 10) @ [48 + n mod 10])"

declare digits.simps [simp del]

text \<open>A \<open>dict\<close> with string keys and string values, and \<open>d.get(k, default)\<close>.\<close>

type_synonym pydict = "string \<rightharpoonup> pystr"

definition dict_get :: "pydict \<Rightarrow> string \<Rightarrow> pystr \<Rightarrow> pystr" where
  "dict_get d k dflt = (case d k of None \<Rightarrow> dflt | Some v \<Rightarrow> v)"

datatype error = OperationalError | IntegrityError | ZeroDivisionError

section \<open>Double-precision arithmetic of the progress computation\<close>

text \<open>
  Both progress bars are fed \<open>int((i / m) * 100)\<close>: a true division of two \<open>int\<close>s, a
  multiplication by \<open>100\<close> and a truncation.  The division and the multiplication are
  correctly rounded binary64 operations (round to nearest, ties to even).  A finite
  double is modelled by the rational it denotes.  \<open>rnd\<close> rounds a rational to 53
  significant bits, which is what the hardware does for the operands that occur here:
  quotients of list positions by list lengths and their products with 100 are far from
  the overflow and subnormal ranges.
\<close>

definition rne :: "rat \<Rightarrow> int" where
  "rne x = (let f = \<lfloor>x\<rfloor>; r = x - of_int f in
            if r < 1/2 then f else if 1/2 < r then f + 1
            else if even f then f else f + 1)"

text \<open>The binade of a positive rational: the \<open>e\<close> with \<open>2 powi e \<le> x < 2 powi (e + 1)\<close>.\<close>

definition binade :: "rat \<Rightarrow> int" where
  "binade x = (let (a, b) = quotient_of x; d = bitlen a - bitlen b in
               if 2 powi d \<le> x then d else d - 1)"

definition rnd :: "rat \<Rightarrow> rat" where
  "rnd x = (if x \<le> 0 then 0 else
             let u = 2 powi (binade x - 52) in of_int (rne (x / u)) * u)"

definition truediv :: "nat \<Rightarrow> nat \<Rightarrow> error + rat" where
  "truediv a b = (if b = 0 then Inl ZeroDivisionError else Inr (rnd (of_nat a / of_nat b)))"

definition float_mul :: "rat \<Rightarrow> rat \<Rightarrow> rat" where
  "float_mul x y = rnd (x * y)"

text \<open>\<open>int(x)\<close> of a float truncates towards zero.\<close>

definition int_of_float :: "rat \<Rightarrow> int" where
  "int_of_float x = (if x < 0 then \<lceil>x\<rceil> else \<lfloor>x\<rfloor>)"

text \<open>\<open>int((i / m) * 100)\<close>\<close>

definition percent :: "nat \<Rightarrow> nat \<Rightarrow> error + int" where
  "percent i m = (case truediv i m of Inl e \<Rightarrow> Inl e
                  | Inr q \<Rightarrow> Inr (int_of_float (float_mul q 100)))"

section \<open>The two stores\<close>

text \<open>
  Each SQLite file is a set of tables named by \<open>normalize_table_name\<close>; a table is the
  list of its rows in insertion order.  The Maps schema has an \<open>INTEGER PRIMARY KEY\<close>
  that SQLite assigns, the JustDial schema a \<open>TEXT PRIMARY KEY\<close> supplied by the caller.
\<close>

record maps_row =
  m_id :: nat
  m_name :: pystr
  m_address :: pystr
  m_phone :: pystr
  m_website :: pystr
  m_keyword :: pystr
  m_location :: pystr
  m_scraped_at :: pystr

record jd_row =
  j_id :: "pystr option"
  j_name :: pystr
  j_address :: pystr
  j_phone :: pystr
  j_website :: pystr
  j_website_status :: pystr
  j_keyword :: pystr
  j_location :: pystr
  j_scraped_at :: pystr
  j_rating :: pystr
  j_votes :: pystr

text \<open>
  The table name is spliced into the SQL text unquoted.  Whether SQLite accepts it as an
  identifier is the parameter \<open>ident_ok\<close>; a statement on a name that is refused, or on
  a table that does not exist, raises \<open>sqlite3.OperationalError\<close>.
\<close>

definition table_rows :: "(pystr \<Rightarrow> bool) \<Rightarrow> (pystr \<rightharpoonup> 'r list) \<Rightarrow> pystr \<Rightarrow> error + 'r list" where
  "table_rows ident_ok db tname =
     (if \<not> ident_ok tname then Inl OperationalError
      else case db tname of None \<Rightarrow> Inl OperationalError | Some rows \<Rightarrow> Inr rows)"

text \<open>\<open>CREATE TABLE IF NOT EXISTS {tname} (...)\<close>\<close>

definition create_table_if_not_exists ::
  "(pystr \<Rightarrow> bool) \<Rightarrow> (pystr \<rightharpoonup> 'r list) \<Rightarrow> pystr \<Rightarrow> error + (pystr \<rightharpoonup> 'r list)" where
  "create_table_if_not_exists ident_ok db tname =
     (if \<not> ident_ok tname then Inl OperationalError
      else case db tname of None \<Rightarrow> Inr (db(tname \<mapsto> [])) | Some rows \<Rightarrow> Inr db)"

text \<open>\<open>SELECT id FROM {tname} WHERE name = ? AND address = ?\<close> followed by \<open>fetchone()\<close>.\<close>

definition maps_select_id :: "maps_row list \<Rightarrow> pystr \<Rightarrow> pystr \<Rightarrow> nat option" where
  "maps_select_id rows name address =
     map_option m_id (find (\<lambda>r. m_name r = name \<and> m_address r = address) rows)"

definition jd_select_id :: "jd_row list \<Rightarrow> pystr \<Rightarrow> pystr \<Rightarrow> pystr option option" where
  "jd_select_id rows name address =
     map_option j_id (find (\<lambda>r. j_name r = name \<and> j_address r = address) rows)"

text \<open>The row id SQLite assigns on insert: one more than the largest in the table.\<close>

definition next_rowid :: "maps_row list \<Rightarrow> nat" where
  "next_rowid rows = fold max (map m_id rows) 0 + 1"

text \<open>
  \<open>INSERT INTO {tname}(id, ...)\<close> on the JustDial schema: a second row with the same
  non-NULL \<open>id\<close> violates the primary key.
\<close>

definition jd_insert :: "jd_row list \<Rightarrow> jd_row \<Rightarrow> error + jd_row list" where
  "jd_insert rows r =
     (if j_id r \<noteq> None \<and> j_id r \<in> set (map j_id rows) then Inl IntegrityError
      else Inr (rows @ [r]))"

section \<open>The window \<open>MapsScraperGUI\<close>\<close>

datatype scraper = Maps | JustDial

datatype callback = ExtractPlace | ProcessNextLink | GotPlace

text \<open>
  Work handed to the Qt event loop, each completed later by a call back into the window:
  a page load (\<open>loadFinished\<close>), a \<open>QTimer.singleShot\<close>, a \<open>runJavaScript\<close>.
\<close>

datatype pending = PageLoad pystr | SingleShot nat callback | RunJavaScript callback

text \<open>
  The fields of the window that the scraping code reads or writes.  The widgets are
  modelled by what was written to them: \<open>maps_status\<close> and \<open>justdial_status\<close> hold the
  appended lines, \<open>maps_progress\<close> and \<open>justdial_progress\<close> every value passed to
  \<open>setValue\<close>, \<open>web_loads\<close> every URL passed to \<open>self.web.load\<close>, \<open>js_calls\<close> the number
  of \<open>runJavaScript\<close> calls on the Maps page, \<open>dialogs\<close> the message boxes shown,
  \<open>table_refreshes\<close> the number of calls of \<open>refresh_keyword_tables\<close>, and \<open>scheduled\<close>
  the work pending in the event loop.
\<close>

record gui =
  links :: "pystr list"
  links_index :: nat
  current_keyword :: pystr
  current_location :: pystr
  max_links_input :: nat
  scraping :: bool
  next_action :: "callback option"
  maps_status :: "pystr list"
  maps_progress :: "int list"
  maps_db :: "pystr \<rightharpoonup> maps_row list"
  web_loads :: "pystr list"
  js_calls :: nat
  scheduled :: "pending list"
  dialogs :: "(string \<times> string) list"
  table_refreshes :: nat
  justdial_keyword :: pystr
  justdial_location :: pystr
  justdial_status :: "pystr list"
  justdial_progress :: "int list"
  justdial_db :: "pystr \<rightharpoonup> jd_row list"
  start_justdial_scrape_btn :: bool
  stop_justdial_scrape_btn :: bool

text \<open>
  What the code obtains from outside: the Unicode case table, SQLite's identifier rule,
  whether the \<open>k\<close>-th page load succeeds, the value the \<open>k\<close>-th extraction script returns,
  the clock, and for the JustDial worker the value of \<open>_is_running\<close> seen at iteration
  \<open>i\<close>, the \<open>i\<close>-th UUID and timestamp, and the outcome of its one \<open>runJavaScript\<close> call.
\<close>

datatype js_result = NotAList | ResultList "pydict list"

datatype js_outcome = Raises pystr | Returns js_result

record env =
  unicode_lower :: "pystr \<Rightarrow> nat \<Rightarrow> pystr"
  sql_ident_ok :: "pystr \<Rightarrow> bool"
  load_ok :: "nat \<Rightarrow> bool"
  place_result :: "nat \<Rightarrow> pydict option"
  utcnow :: "nat \<Rightarrow> pystr"
  is_running :: "nat \<Rightarrow> bool"
  uuid4 :: "nat \<Rightarrow> pystr"
  now :: "nat \<Rightarrow> pystr"
  run_javascript :: js_outcome

definition log_line :: "pystr \<Rightarrow> scraper \<Rightarrow> gui \<Rightarrow> gui" where
  "log_line msg scr s =
     (case scr of Maps \<Rightarrow> s\<lparr>maps_status := maps_status s @ [msg]\<rparr>
      | JustDial \<Rightarrow> s\<lparr>justdial_status := justdial_status s @ [msg]\<rparr>)"

definition get_current_table :: "env \<Rightarrow> scraper \<Rightarrow> gui \<Rightarrow> pystr" where
  "get_current_table env scr s =
     (case scr of
        Maps \<Rightarrow> normalize_table_name (unicode_lower env) (current_keyword s) (current_location s)
      | JustDial \<Rightarrow>
          normalize_table_name (unicode_lower env) (justdial_keyword s) (justdial_location s))"

definition ensure_table :: "env \<Rightarrow> pystr \<Rightarrow> pystr \<Rightarrow> scraper \<Rightarrow> gui \<Rightarrow> error + gui" where
  "ensure_table env keyword location scr s =
     (let tname = normalize_table_name (unicode_lower env) keyword location in
      case scr of
        Maps \<Rightarrow>
          (case create_table_if_not_exists (sql_ident_ok env) (maps_db s) tname of
             Inl e \<Rightarrow> Inl e | Inr db \<Rightarrow> Inr (s\<lparr>maps_db := db\<rparr>))
      | JustDial \<Rightarrow>
          (case create_table_if_not_exists (sql_ident_ok env) (justdial_db s) tname of
             Inl e \<Rightarrow> Inl e | Inr db \<Rightarrow> Inr (s\<lparr>justdial_db := db\<rparr>)))"

text \<open>
  The viewer's table list is outside the model; a refresh is only counted.
\<close>

definition refresh_keyword_tables :: "gui \<Rightarrow> gui" where
  "refresh_keyword_tables s = s\<lparr>table_refreshes := table_refreshes s + 1\<rparr>"

subsection \<open>Maps flow\<close>

text \<open>
  \<^verbatim>\<open>
  def _got_links(self, hrefs):
      if not hrefs:
          self.log("No links found.")
          return
      max_links = self.max_links_input.value()
      self.links = hrefs[:max_links]
      self.links_index = 0
      self.log(f"Collected {len(self.links)} links. Ready to scrape.")
  \<close>
\<close>

definition got_links :: "pystr list option \<Rightarrow> gui \<Rightarrow> gui" where
  "got_links hrefs s =
     (case hrefs of
        None \<Rightarrow> log_line (lit ''No links found.'') Maps s
      | Some hs \<Rightarrow>
          if hs = [] then log_line (lit ''No links found.'') Maps s
          else
            let max_links = max_links_input s;
                s1 = s\<lparr>links := take max_links hs, links_index := 0\<rparr>
            in log_line (lit ''Collected '' @ digits (length (links s1))
                          @ lit '' links. Ready to scrape.'') Maps s1)"

text \<open>
  \<^verbatim>\<open>
  def _process_next_link(self):
      if self.links_index >= len(self.links):
          self.scraping = False
          self.log("Scraping finished.")
          self.refresh_keyword_tables()
          return
      url = self.links[self.links_index]
      self._next_action = self._extract_place
      self.web.load(QUrl(url))
  \<close>
\<close>

definition process_next_link :: "gui \<Rightarrow> gui" where
  "process_next_link s =
     (if links_index s \<ge> length (links s) then
        refresh_keyword_tables (log_line (lit ''Scraping finished.'') Maps (s\<lparr>scraping := False\<rparr>))
      else
        let url = links s ! links_index s in
        s\<lparr>next_action := Some ExtractPlace,
          web_loads := web_loads s @ [url],
          scheduled := scheduled s @ [PageLoad url]\<rparr>)"

text \<open>
  \<^verbatim>\<open>
  def start_scrape(self):
      if not self.links:
          QMessageBox.information(self, "No links", "Collect links first.")
          return
      self.ensure_table(self.current_keyword, self.current_location, "maps")
      self.scraping = True
      self.links_index = 0
      self.maps_progress.setValue(0)
      self._process_next_link()
  \<close>
\<close>

definition start_scrape :: "env \<Rightarrow> gui \<Rightarrow> error + gui" where
  "start_scrape env s =
     (if links s = [] then
        Inr (s\<lparr>dialogs := dialogs s @ [(''No links'', ''Collect links first.'')]\<rparr>)
      else
        case ensure_table env (current_keyword s) (current_location s) Maps s of
          Inl e \<Rightarrow> Inl e
        | Inr s1 \<Rightarrow>
            Inr (process_next_link
                   (s1\<lparr>scraping := True, links_index := 0,
                       maps_progress := maps_progress s1 @ [0]\<rparr>)))"

text \<open>
  \<^verbatim>\<open>
  def _on_load_finished(self, ok):
      if ok and self._next_action:
          QTimer.singleShot(600, self._next_action)
  \<close>
\<close>

definition on_load_finished :: "bool \<Rightarrow> gui \<Rightarrow> gui" where
  "on_load_finished ok s =
     (case next_action s of
        None \<Rightarrow> s
      | Some action \<Rightarrow>
          if ok then s\<lparr>scheduled := scheduled s @ [SingleShot 600 action]\<rparr> else s)"

text \<open>\<open>_extract_place\<close> runs the extraction script with \<open>_got_place\<close> as its callback.\<close>

definition extract_place :: "gui \<Rightarrow> gui" where
  "extract_place s =
     s\<lparr>js_calls := js_calls s + 1, scheduled := scheduled s @ [RunJavaScript GotPlace]\<rparr>"

text \<open>
  \<^verbatim>\<open>
  def _got_place(self, data):
      if not data:
          data = {}
      tname = self.get_current_table("maps")
      ...
      cur.execute(f"SELECT id FROM {tname} WHERE name = ? AND address = ?",
                 (data.get("name",""), data.get("address","")))
      existing = cur.fetchone()
      if not existing:
          cur.execute(f"""INSERT INTO {tname}(name,address,phone,website,keyword,location,scraped_at)
              VALUES (?,?,?,?,?,?,?)""", (
              data.get("name",""), data.get("address",""), data.get("phone",""), data.get("website",""),
              self.current_keyword, self.current_location, datetime.utcnow().isoformat()))
          self.log(f"Saved: {data.get('name','')}")
      else:
          self.log(f"Skipped duplicate: {data.get('name','')}")
      con.commit()
      con.close()
      self.links_index += 1
      self.maps_progress.setValue(int((self.links_index/len(self.links))*100))
      QTimer.singleShot(800, self._process_next_link)
  \<close>
  \<open>timestamp\<close> is the value of \<open>datetime.utcnow().isoformat()\<close>.
\<close>

definition got_place :: "env \<Rightarrow> pystr \<Rightarrow> pydict option \<Rightarrow> gui \<Rightarrow> error + gui" where
  "got_place env timestamp result s =
     (let data = (case result of None \<Rightarrow> Map.empty | Some d \<Rightarrow> d);
          tname = get_current_table env Maps s
      in case table_rows (sql_ident_ok env) (maps_db s) tname of
           Inl e \<Rightarrow> Inl e
         | Inr rows \<Rightarrow>
             let existing = maps_select_id rows (dict_get data ''name'' []) (dict_get data ''address'' []);
                 s1 = (case existing of
                         None \<Rightarrow>
                           log_line (lit ''Saved: '' @ dict_get data ''name'' []) Maps
                             (s\<lparr>maps_db := (maps_db s)(tname \<mapsto> rows @
                                  [\<lparr>m_id = next_rowid rows,
                                    m_name = dict_get data ''name'' [],
                                    m_address = dict_get data ''address'' [],
                                    m_phone = dict_get data ''phone'' [],
                                    m_website = dict_get data ''website'' [],
                                    m_keyword = current_keyword s,
                                    m_location = current_location s,
                                    m_scraped_at = timestamp\<rparr>])\<rparr>)
                       | Some i \<Rightarrow>
                           log_line (lit ''Skipped duplicate: '' @ dict_get data ''name'' []) Maps s);
                 s2 = s1\<lparr>links_index := links_index s1 + 1\<rparr>
             in case percent (links_index s2) (length (links s2)) of
                  Inl e \<Rightarrow> Inl e
                | Inr p \<Rightarrow>
                    Inr (s2\<lparr>maps_progress := maps_progress s2 @ [p],
                            scheduled := scheduled s2 @ [SingleShot 800 ProcessNextLink]\<rparr>))"

subsection \<open>The event loop, for the Maps flow\<close>

text \<open>
  \<open>step\<close> completes the oldest pending piece of work: it calls the slot or callback the
  source connected to it, with what the environment answers.
\<close>

definition invoke :: "env \<Rightarrow> callback \<Rightarrow> gui \<Rightarrow> error + gui" where
  "invoke env cb s =
     (case cb of
        ExtractPlace \<Rightarrow> Inr (extract_place s)
      | ProcessNextLink \<Rightarrow> Inr (process_next_link s)
      | GotPlace \<Rightarrow>
          got_place env (utcnow env (js_calls s - 1)) (place_result env (js_calls s - 1)) s)"

definition complete :: "env \<Rightarrow> pending \<Rightarrow> gui \<Rightarrow> error + gui" where
  "complete env p s =
     (case p of
        PageLoad url \<Rightarrow> Inr (on_load_finished (load_ok env (length (web_loads s) - 1)) s)
      | SingleShot ms cb \<Rightarrow> invoke env cb s
      | RunJavaScript cb \<Rightarrow> invoke env cb s)"

definition step :: "env \<Rightarrow> gui \<Rightarrow> error + gui" where
  "step env s =
     (case scheduled s of
        [] \<Rightarrow> Inr s
      | p # ps \<Rightarrow> complete env p (s\<lparr>scheduled := ps\<rparr>))"

fun steps :: "nat \<Rightarrow> env \<Rightarrow> gui \<Rightarrow> error + gui" where
  "steps 0 env s = Inr s"
| "steps (Suc n) env s = (case step env s of Inl e \<Rightarrow> Inl e | Inr s' \<Rightarrow> steps n env s')"

text \<open>
  The event loop runs until nothing is pending.  \<open>run_events\<close> gives it \<open>fuel\<close> steps:
  the result is \<open>None\<close> when work is still pending after them.
\<close>

fun run_events :: "nat \<Rightarrow> env \<Rightarrow> gui \<Rightarrow> (error + gui) option" where
  "run_events 0 env s = (if scheduled s = [] then Some (Inr s) else None)"
| "run_events (Suc n) env s =
     (if scheduled s = [] then Some (Inr s)
      else case step env s of Inl e \<Rightarrow> Some (Inl e) | Inr s' \<Rightarrow> run_events n env s')"

declare run_events.simps [simp del]

subsection \<open>JustDial slots\<close>

text \<open>
  \<^verbatim>\<open>
  def save_justdial_data(self, data):
      tname = self.get_current_table("justdial")
      ...
      cur.execute(f"SELECT id FROM {tname} WHERE name = ? AND address = ?",
                 (data.get("name",""), data.get("address","")))
      existing = cur.fetchone()
      if not existing:
          cur.execute(f"""INSERT INTO {tname}(id, name, address, phone, website, website_status,
                            keyword, location, scraped_at, rating, votes)
              VALUES (?,?,?,?,?,?,?,?,?,?,?)""", (
              data.get("id"), data.get("name",""), data.get("address",""), data.get("phone",""),
              data.get("website",""), data.get("website_status","Unknown"),
              self.justdial_keyword, self.justdial_location,
              data.get("scraped_at",""), data.get("rating","N/A"), data.get("votes","N/A")))
          self.log(f"Saved: {data.get('name','')}", "justdial")
      else:
          self.log(f"Skipped duplicate: {data.get('name','')}", "justdial")
      con.commit()
      con.close()
  \<close>
\<close>

definition save_justdial_data :: "env \<Rightarrow> pydict \<Rightarrow> gui \<Rightarrow> error + gui" where
  "save_justdial_data env data s =
     (let tname = get_current_table env JustDial s
      in case table_rows (sql_ident_ok env) (justdial_db s) tname of
           Inl e \<Rightarrow> Inl e
         | Inr rows \<Rightarrow>
             let existing = jd_select_id rows (dict_get data ''name'' []) (dict_get data ''address'' [])
             in case existing of
                  None \<Rightarrow>
                    (case jd_insert rows
                            \<lparr>j_id = data ''id'',
                             j_name = dict_get data ''name'' [],
                             j_address = dict_get data ''address'' [],
                             j_phone = dict_get data ''phone'' [],
                             j_website = dict_get data ''website'' [],
                             j_website_status = dict_get data ''website_status'' (lit ''Unknown''),
                             j_keyword = justdial_keyword s,
                             j_location = justdial_location s,
                             j_scraped_at = dict_get data ''scraped_at'' [],
                             j_rating = dict_get data ''rating'' (lit ''N/A''),
                             j_votes = dict_get data ''votes'' (lit ''N/A'')\<rparr> of
                       Inl e \<Rightarrow> Inl e
                     | Inr rows' \<Rightarrow>
                         Inr (log_line (lit ''Saved: '' @ dict_get data ''name'' []) JustDial
                                (s\<lparr>justdial_db := (justdial_db s)(tname \<mapsto> rows')\<rparr>)))
                | Some i \<Rightarrow>
                    Inr (log_line (lit ''Skipped duplicate: '' @ dict_get data ''name'' [])
                           JustDial s))"

definition justdial_scraping_finished :: "gui \<Rightarrow> gui" where
  "justdial_scraping_finished s =
     refresh_keyword_tables
       (s\<lparr>start_justdial_scrape_btn := True, stop_justdial_scrape_btn := False\<rparr>)"

section \<open>The worker \<open>JustDialScraper\<close>\<close>

datatype signal = Status pystr | Data pydict | Progress int | Finished

subsection \<open>The extraction script\<close>

text \<open>
  The script walks the listing elements of the page.  What its selectors find in one
  listing is the record \<open>listing\<close>: the trimmed text of the title element if there is
  one, and the values the script computes for the other fields (each \<open>"N/A"\<close>, or
  \<open>"Unknown"\<close> for the website status, when nothing matches).
  \<^verbatim>\<open>
  function extractListingData(listing) {
      let name = "N/A";
      try { const nameElement = listing.querySelector(...);
            if (nameElement) name = nameElement.innerText.trim(); } catch(e) {}
      // Skip if no name found
      if (!name || name === "N/A") return null;
      ...
      return { name: name, address: address, phone: phone, website: website,
               website_status: website_status, rating: rating, votes: votes };
  }
  const results = [];
  const seenNames = new Set();
  for (const listing of listings) {
      const data = extractListingData(listing);
      if (data && data.name !== "N/A" && !seenNames.has(data.name)) {
          seenNames.add(data.name);
          results.push(data);
      }
  }
  return results;
  \<close>
\<close>

record listing =
  title_text :: "pystr option"
  address_value :: pystr
  phone_value :: pystr
  website_value :: pystr
  website_status_value :: pystr
  rating_value :: pystr
  votes_value :: pystr

definition extractListingData :: "listing \<Rightarrow> pydict option" where
  "extractListingData l =
     (let name = (case title_text l of None \<Rightarrow> lit ''N/A'' | Some t \<Rightarrow> t)
      in if name = [] \<or> name = lit ''N/A'' then None
         else Some [''name'' \<mapsto> name,
                    ''address'' \<mapsto> address_value l,
                    ''phone'' \<mapsto> phone_value l,
                    ''website'' \<mapsto> website_value l,
                    ''website_status'' \<mapsto> website_status_value l,
                    ''rating'' \<mapsto> rating_value l,
                    ''votes'' \<mapsto> votes_value l])"

fun extract_listings :: "pystr set \<Rightarrow> listing list \<Rightarrow> pydict list" where
  "extract_listings seenNames [] = []"
| "extract_listings seenNames (l # ls) =
     (case extractListingData l of
        None \<Rightarrow> extract_listings seenNames ls
      | Some data \<Rightarrow>
          if data ''name'' \<noteq> Some (lit ''N/A'') \<and> dict_get data ''name'' [] \<notin> seenNames
          then data # extract_listings (insert (dict_get data ''name'' []) seenNames) ls
          else extract_listings seenNames ls)"

subsection \<open>\<open>run\<close> and its callback \<open>process_results\<close>\<close>

text \<open>
  \<^verbatim>\<open>
  for i, data in enumerate(result):
      if not self._is_running or i >= self.max_listings:
          break
      business_id = str(uuid.uuid4())
      scraped_at = datetime.now().isoformat()
      data_with_meta = { 'id': business_id, 'name': data.get('name', 'N/A'), ... }
      self.data_signal.emit(data_with_meta)
      self.progress_signal.emit(int(((i + 1) / min(len(result), self.max_listings)) * 100))
      time.sleep(0.1)
  \<close>
  The loop returns the signals it emitted and the exception that left it, if any.
  \<open>n\<close> is \<open>len(result)\<close>; \<open>data_with_meta env i data\<close> is the dictionary built in
  iteration \<open>i\<close>.
\<close>

definition data_with_meta :: "env \<Rightarrow> nat \<Rightarrow> pydict \<Rightarrow> pydict" where
  "data_with_meta env i data =
     [''id'' \<mapsto> uuid4 env i,
      ''name'' \<mapsto> dict_get data ''name'' (lit ''N/A''),
      ''address'' \<mapsto> dict_get data ''address'' (lit ''N/A''),
      ''phone'' \<mapsto> dict_get data ''phone'' (lit ''N/A''),
      ''website'' \<mapsto> dict_get data ''website'' (lit ''N/A''),
      ''website_status'' \<mapsto> dict_get data ''website_status'' (lit ''Unknown''),
      ''rating'' \<mapsto> dict_get data ''rating'' (lit ''N/A''),
      ''votes'' \<mapsto> dict_get data ''votes'' (lit ''N/A''),
      ''scraped_at'' \<mapsto> now env i]"

fun process_loop :: "env \<Rightarrow> nat \<Rightarrow> nat \<Rightarrow> nat \<Rightarrow> pydict list \<Rightarrow> signal list \<times> error option" where
  "process_loop env max_listings n i [] = ([], None)"
| "process_loop env max_listings n i (data # rest) =
     (if \<not> is_running env i \<or> i \<ge> max_listings then ([], None)
      else
        case percent (i + 1) (min n max_listings) of
          Inl e \<Rightarrow> ([Data (data_with_meta env i data)], Some e)
        | Inr p \<Rightarrow>
            (case process_loop env max_listings n (i + 1) rest of
               (sigs, raised) \<Rightarrow>
                 (Data (data_with_meta env i data) # Progress p # sigs, raised)))"

declare process_loop.simps [simp del]

text \<open>
  \<^verbatim>\<open>
  def process_results(result):
      if not result or not isinstance(result, list):
          self.status_signal.emit("No listings found or invalid page structure.")
          self.finished_signal.emit()
          return
      self.status_signal.emit(f"Found {len(result)} listings. Processing...")
      for ...
      self.status_signal.emit(f"Finished processing {min(len(result), self.max_listings)} listings.")
      self.finished_signal.emit()
  \<close>
\<close>

definition process_results :: "env \<Rightarrow> nat \<Rightarrow> js_result \<Rightarrow> signal list \<times> error option" where
  "process_results env max_listings result =
     (case result of
        NotAList \<Rightarrow>
          ([Status (lit ''No listings found or invalid page structure.''), Finished], None)
      | ResultList r \<Rightarrow>
          if r = [] then
            ([Status (lit ''No listings found or invalid page structure.''), Finished], None)
          else
            let found = Status (lit ''Found '' @ digits (length r) @ lit '' listings. Processing...'')
            in case process_loop env max_listings (length r) 0 r of
                 (sigs, Some e) \<Rightarrow> (found # sigs, Some e)
               | (sigs, None) \<Rightarrow>
                   (found # sigs @
                      [Status (lit ''Finished processing '' @ digits (min (length r) max_listings)
                               @ lit '' listings.''),
                       Finished], None))"

text \<open>
  \<^verbatim>\<open>
  def run(self):
      try:
          self.status_signal.emit("Starting JustDial scraping from embedded browser...")
          ...
          self.web_view.page().runJavaScript(js_code, process_results)
      except Exception as e:
          self.status_signal.emit(f"Error in JustDial scraper: {e}")
          self.finished_signal.emit()
  \<close>
  The call of \<open>runJavaScript\<close> either raises, or the page later calls \<open>process_results\<close>
  with the script's value.
\<close>

definition run :: "env \<Rightarrow> nat \<Rightarrow> signal list \<times> error option" where
  "run env max_listings =
     (let starting = Status (lit ''Starting JustDial scraping from embedded browser...'')
      in case run_javascript env of
           Raises e \<Rightarrow>
             ([starting, Status (lit ''Error in JustDial scraper: '' @ e), Finished], None)
         | Returns result \<Rightarrow>
             (case process_results env max_listings result of
                (sigs, raised) \<Rightarrow> (starting # sigs, raised)))"

subsection \<open>The connections made by \<open>start_justdial_scrape\<close>\<close>

text \<open>
  \<open>status_signal\<close> is connected to the JustDial log, \<open>progress_signal\<close> to the progress
  bar, \<open>data_signal\<close> to \<open>save_justdial_data\<close> and \<open>finished_signal\<close> to
  \<open>justdial_scraping_finished\<close>.
\<close>

definition slot :: "env \<Rightarrow> signal \<Rightarrow> gui \<Rightarrow> error + gui" where
  "slot env sig s =
     (case sig of
        Status msg \<Rightarrow> Inr (log_line msg JustDial s)
      | Progress p \<Rightarrow> Inr (s\<lparr>justdial_progress := justdial_progress s @ [p]\<rparr>)
      | Data d \<Rightarrow> save_justdial_data env d s
      | Finished \<Rightarrow> Inr (justdial_scraping_finished s))"

text \<open>Applying a handler to a sequence of inputs; an exception ends the sequence.\<close>

fun seq :: "('a \<Rightarrow> 's \<Rightarrow> error + 's) \<Rightarrow> 'a list \<Rightarrow> 's \<Rightarrow> error + 's" where
  "seq f [] s = Inr s"
| "seq f (x # xs) s = (case f x s of Inl e \<Rightarrow> Inl e | Inr s' \<Rightarrow> seq f xs s')"

section \<open>Notions used in the properties\<close>

text \<open>The deduplication key of a row.\<close>

definition maps_keys :: "maps_row list \<Rightarrow> (pystr \<times> pystr) list" where
  "maps_keys rows = map (\<lambda>r. (m_name r, m_address r)) rows"

definition jd_keys :: "jd_row list \<Rightarrow> (pystr \<times> pystr) list" where
  "jd_keys rows = map (\<lambda>r. (j_name r, j_address r)) rows"

text \<open>A name that is neither empty nor \<open>"N/A"\<close>.\<close>

definition has_name :: "pystr \<Rightarrow> bool" where
  "has_name n = (n \<noteq> [] \<and> n \<noteq> lit ''N/A'')"

text \<open>A signal that, if it carries a record, carries one with a name.\<close>

definition named_signal :: "signal \<Rightarrow> bool" where
  "named_signal sig = (case sig of Data d \<Rightarrow> has_name (dict_get d ''name'' []) | _ \<Rightarrow> True)"

text \<open>
  The key under which \<open>_got_place\<close> looks up and stores the result of an extraction, and
  the key under which \<open>save_justdial_data\<close> looks up and stores a record.
\<close>

definition place_key :: "pydict option \<Rightarrow> pystr \<times> pystr" where
  "place_key result =
     (let data = (case result of None \<Rightarrow> Map.empty | Some d \<Rightarrow> d)
      in (dict_get data ''name'' [], dict_get data ''address'' []))"

definition record_key :: "pydict \<Rightarrow> pystr \<times> pystr" where
  "record_key data = (dict_get data ''name'' [], dict_get data ''address'' [])"

text \<open>
  What one extraction-and-store cycle of Sequential Mode is to do to the table of the
  query, stated on the keys: a record whose \<open>(name, address)\<close> is among the keys of the
  table leaves the table as it is and is reported as a duplicate; any other record is
  appended as a new row, with the next row id, the current query and the timestamp, and
  is reported as saved.  \<open>store_cycles\<close> does this for the extraction results number
  \<open>k\<close>, \<open>k + 1\<close>, ... of the environment, \<open>d\<close> of them, and collects the lines.
\<close>

definition store_place ::
  "pystr \<Rightarrow> pystr \<Rightarrow> pystr \<Rightarrow> pydict option \<Rightarrow> maps_row list \<Rightarrow> maps_row list" where
  "store_place keyword location timestamp result rows =
     (let data = (case result of None \<Rightarrow> Map.empty | Some d \<Rightarrow> d) in
      if place_key result \<in> set (maps_keys rows) then rows
      else rows @ [\<lparr>m_id = next_rowid rows,
                     m_name = dict_get data ''name'' [],
                     m_address = dict_get data ''address'' [],
                     m_phone = dict_get data ''phone'' [],
                     m_website = dict_get data ''website'' [],
                     m_keyword = keyword, m_location = location,
                     m_scraped_at = timestamp\<rparr>])"

definition store_line :: "pydict option \<Rightarrow> maps_row list \<Rightarrow> pystr" where
  "store_line result rows =
     (if place_key result \<in> set (maps_keys rows)
      then lit ''Skipped duplicate: '' @ fst (place_key result)
      else lit ''Saved: '' @ fst (place_key result))"

fun store_cycles ::
  "env \<Rightarrow> pystr \<Rightarrow> pystr \<Rightarrow> nat \<Rightarrow> nat \<Rightarrow> maps_row list \<Rightarrow> maps_row list \<times> pystr list" where
  "store_cycles env keyword location k 0 rows = (rows, [])"
| "store_cycles env keyword location k (Suc d) rows =
     (case store_cycles env keyword location (Suc k) d
             (store_place keyword location (utcnow env k) (place_result env k) rows) of
        (rows', lines) \<Rightarrow> (rows', store_line (place_result env k) rows # lines))"

text \<open>The rows of the current query's table (none when the table does not exist).\<close>

definition maps_table :: "env \<Rightarrow> gui \<Rightarrow> maps_row list" where
  "maps_table env s = (case maps_db s (get_current_table env Maps s) of None \<Rightarrow> [] | Some rows \<Rightarrow> rows)"

definition justdial_table :: "env \<Rightarrow> gui \<Rightarrow> jd_row list" where
  "justdial_table env s =
     (case justdial_db s (get_current_table env JustDial s) of None \<Rightarrow> [] | Some rows \<Rightarrow> rows)"

text \<open>The progress values among the signals of a run, and the number of records emitted.\<close>

fun progress_values :: "signal list \<Rightarrow> int list" where
  "progress_values [] = []"
| "progress_values (Progress p # sigs) = p # progress_values sigs"
| "progress_values (_ # sigs) = progress_values sigs"

fun data_count :: "signal list \<Rightarrow> nat" where
  "data_count [] = 0"
| "data_count (Data d # sigs) = Suc (data_count sigs)"
| "data_count (_ # sigs) = data_count sigs"

text \<open>The integer that \<open>int((i / m) * 100)\<close> evaluates to, for \<open>m \<noteq> 0\<close>.\<close>

definition percent_value :: "nat \<Rightarrow> nat \<Rightarrow> int" where
  "percent_value i m = int_of_float (float_mul (rnd (of_nat i / of_nat m)) 100)"

text \<open>
  The window as \<open>__init__\<close> leaves it, over the two database files as found on disk.
\<close>

definition init_gui :: "(pystr \<rightharpoonup> maps_row list) \<Rightarrow> (pystr \<rightharpoonup> jd_row list) \<Rightarrow> gui" where
  "init_gui mdb jdb =
     \<lparr>links = [], links_index = 0, current_keyword = [], current_location = [],
      max_links_input = 30, scraping = False, next_action = None,
      maps_status = [], maps_progress = [], maps_db = mdb, web_loads = [], js_calls = 0,
      scheduled = [], dialogs = [], table_refreshes = 1,
      justdial_keyword = [], justdial_location = [], justdial_status = [],
      justdial_progress = [], justdial_db = jdb,
      start_justdial_scrape_btn = True, stop_justdial_scrape_btn = False\<rparr>"

text \<open>
  A sample environment: ASCII-only case mapping, every identifier accepted, and the
  given answers for page loads, the running flag and the worker's script call; the
  extraction of the \<open>k\<close>-th place finds nothing, UUIDs and timestamps are the decimal
  numerals of their index.
\<close>

definition sample_env :: "(nat \<Rightarrow> bool) \<Rightarrow> (nat \<Rightarrow> bool) \<Rightarrow> js_outcome \<Rightarrow> env" where
  "sample_env loads running outcome =
     \<lparr>unicode_lower = (\<lambda>s i. [s ! i]), sql_ident_ok = (\<lambda>t. True), load_ok = loads,
      place_result = (\<lambda>k. None), utcnow = digits, is_running = running,
      uuid4 = digits, now = digits, run_javascript = outcome\<rparr>"

text \<open>Sample data: a record with a name and an address, and a listing with a title.\<close>

definition sample_record :: "string \<Rightarrow> string \<Rightarrow> pydict" where
  "sample_record name address = [''name'' \<mapsto> lit name, ''address'' \<mapsto> lit address]"

definition sample_listing :: "string \<Rightarrow> listing" where
  "sample_listing title =
     \<lparr>title_text = Some (lit title), address_value = lit ''N/A'', phone_value = lit ''N/A'',
      website_value = lit ''N/A'', website_status_value = lit ''Unknown'',
      rating_value = lit ''N/A'', votes_value = lit ''N/A''\<rparr>"

text \<open>A window whose current Maps query is "Cafes" in "Pune", with empty databases.\<close>

definition sample_gui :: gui where
  "sample_gui =
     (init_gui Map.empty Map.empty)\<lparr>current_keyword := lit ''Cafes'',
                                     current_location := lit ''Pune''\<rparr>"

text \<open>
  The same window with one collected link and with the table \<open>cafes_pune\<close> created,
  empty, in both databases, the JustDial query being "Cafes" in "Pune" too.
\<close>

definition sample_store_gui :: gui where
  "sample_store_gui =
     sample_gui\<lparr>links := [lit ''A''],
                 maps_db := [lit ''cafes_pune'' \<mapsto> []],
                 justdial_keyword := lit ''Cafes'', justdial_location := lit ''Pune'',
                 justdial_db := [lit ''cafes_pune'' \<mapsto> []]\<rparr>"

text \<open>Continuing after a handler that may have raised.\<close>

definition and_then :: "error + 'a \<Rightarrow> ('a \<Rightarrow> error + 'b) \<Rightarrow> error + 'b" where
  "and_then r f = (case r of Inl e \<Rightarrow> Inl e | Inr s \<Rightarrow> f s)"

section \<open>Rounding and the progress percentage\<close>

lemma binade_bounds:
  assumes "0 < x"
  shows "2 powi (binade x) \<le> x \<and> x < 2 powi (binade x + 1)"
proof -
  obtain a b where q: "quotient_of x = (a, b)" by (cases "quotient_of x")
  have b: "0 < b" using q by (rule quotient_of_denom_pos)
  have x: "x = of_int a / of_int b" using q by (rule quotient_of_div)
  have a: "0 < a" using assms b x by (simp add: zero_less_divide_iff)
  define la where "la = nat (bitlen a)"
  define lb where "lb = nat (bitlen b)"
  have "0 < bitlen a" using a bitlen_eq_zero_iff[of a] bitlen_nonneg[of a] by linarith
  then have la: "bitlen a = int la" "0 < la" by (simp_all add: la_def)
  have "0 < bitlen b" using b bitlen_eq_zero_iff[of b] bitlen_nonneg[of b] by linarith
  then have lb: "bitlen b = int lb" "0 < lb" by (simp_all add: lb_def)
  have ba: "2 ^ (la - 1) \<le> a" "a < 2 ^ la" using bitlen_bounds[OF a] la by (simp_all add: nat_diff_distrib')
  have bb: "2 ^ (lb - 1) \<le> b" "b < 2 ^ lb" using bitlen_bounds[OF b] lb by (simp_all add: nat_diff_distrib')
  have ra: "(2::rat) ^ (la - 1) \<le> of_int a" "of_int a < (2::rat) ^ la"
    using ba by (metis of_int_le_iff of_int_numeral of_int_power, metis of_int_less_iff of_int_numeral of_int_power)
  have rb: "(2::rat) ^ (lb - 1) \<le> of_int b" "of_int b < (2::rat) ^ lb"
    using bb by (metis of_int_le_iff of_int_numeral of_int_power, metis of_int_less_iff of_int_numeral of_int_power)
  define d where "d = int la - int lb"
  have up: "x < 2 powi (d + 1)"
  proof -
    have "d + 1 = int la - int (lb - 1)" using lb by (simp add: d_def)
    then have "(2::rat) powi (d + 1) = 2 ^ la / 2 ^ (lb - 1)"
      by (simp add: power_int_diff)
    moreover have "of_int a / of_int b < (2::rat) ^ la / 2 ^ (lb - 1)"
      using a ra rb by (intro frac_less) simp_all
    ultimately show ?thesis using x by simp
  qed
  have lo: "2 powi (d - 1) < x"
  proof -
    have "d - 1 = int (la - 1) - int lb" using la by (simp add: d_def)
    then have "(2::rat) powi (d - 1) = 2 ^ (la - 1) / 2 ^ lb"
      by (simp add: power_int_diff)
    moreover have "(2::rat) ^ (la - 1) / 2 ^ lb < of_int a / of_int b"
      using b ra rb by (intro frac_less2) simp_all
    ultimately show ?thesis using x by simp
  qed
  have bin: "binade x = (if 2 powi d \<le> x then d else d - 1)"
    by (simp add: binade_def q la lb d_def)
  show ?thesis
  proof (cases "2 powi d \<le> x")
    case True
    then show ?thesis using up bin by simp
  next
    case False
    then show ?thesis using lo bin by simp
  qed
qed


lemma rne_bounds: "\<lfloor>x\<rfloor> \<le> rne x \<and> rne x \<le> \<lfloor>x\<rfloor> + 1"
  by (simp add: rne_def Let_def)

lemma rne_of_int: "rne (of_int n) = n"
  by (simp add: rne_def Let_def)

lemma rne_mono: assumes "x \<le> y" shows "rne x \<le> rne y"
proof (cases "\<lfloor>x\<rfloor> = \<lfloor>y\<rfloor>")
  case True
  then show ?thesis using assms by (auto simp: rne_def Let_def)
next
  case False
  with assms have "\<lfloor>x\<rfloor> < \<lfloor>y\<rfloor>" by (simp add: floor_mono order.not_eq_order_implies_strict)
  then have "rne x \<le> \<lfloor>y\<rfloor>" using rne_bounds[of x] by linarith
  then show ?thesis using rne_bounds[of y] by linarith
qed

lemma binade_mono:
  assumes "0 < x" "x \<le> y"
  shows "binade x \<le> binade y"
proof (rule ccontr)
  assume "\<not> binade x \<le> binade y"
  then have "binade y + 1 \<le> binade x" by simp
  then have "(2::rat) powi (binade y + 1) \<le> 2 powi (binade x)"
    by (intro power_int_increasing) simp_all
  moreover have "y < 2 powi (binade y + 1)" using binade_bounds[of y] assms by simp
  moreover have "2 powi (binade x) \<le> x" using binade_bounds[of x] assms by simp
  ultimately show False using assms by linarith
qed

lemma rnd_in_binade:
  assumes "0 < x"
  shows "2 powi (binade x) \<le> rnd x \<and> rnd x \<le> 2 powi (binade x + 1)"
proof -
  define e where "e = binade x"
  define u :: rat where "u = 2 powi (e - 52)"
  have u: "0 < u" by (simp add: u_def)
  have r: "rnd x = of_int (rne (x / u)) * u" using assms by (simp add: rnd_def u_def e_def Let_def)
  have lo: "2 powi e = 2 ^ 52 * u" 
    by (simp add: u_def power_int_diff)
  have hi: "2 powi (e + 1) = 2 ^ 53 * u"
    by (simp add: u_def power_int_diff power_int_add)
  have "2 ^ 52 * u \<le> x" "x < 2 ^ 53 * u" using binade_bounds[OF assms] lo hi by (simp_all add: e_def)
  then have "2 ^ 52 \<le> x / u" "x / u \<le> 2 ^ 53" using u by (simp_all add: pos_le_divide_eq pos_divide_le_eq)
  then have "rne (of_int (2 ^ 52)) \<le> rne (x / u)" "rne (x / u) \<le> rne (of_int (2 ^ 53))"
    by (auto intro!: rne_mono)
  then have "(2::int) ^ 52 \<le> rne (x / u)" "rne (x / u) \<le> (2::int) ^ 53" by (simp_all only: rne_of_int)
  then have "(2::rat) ^ 52 \<le> of_int (rne (x / u))" "of_int (rne (x / u)) \<le> (2::rat) ^ 53"
    by (metis of_int_le_iff of_int_numeral of_int_power)+
  then have "2 ^ 52 * u \<le> of_int (rne (x / u)) * u" "of_int (rne (x / u)) * u \<le> 2 ^ 53 * u"
    using u by simp_all
  then show ?thesis using r lo hi by (simp add: e_def)
qed

lemma rnd_mono:
  assumes "0 < x" "x \<le> y"
  shows "rnd x \<le> rnd y"
proof (cases "binade x = binade y")
  case True
  define u :: rat where "u = 2 powi (binade y - 52)"
  have u: "0 < u" by (simp add: u_def)
  have "x / u \<le> y / u" using assms u by (simp add: divide_right_mono)
  then have "rne (x / u) \<le> rne (y / u)" by (rule rne_mono)
  then have "of_int (rne (x / u)) * u \<le> of_int (rne (y / u)) * u" using u by simp
  moreover have "0 < y" using assms by simp
  ultimately show ?thesis using assms True by (simp add: rnd_def u_def Let_def)
next
  case False
  then have "binade x + 1 \<le> binade y" using binade_mono[OF assms] by simp
  then have "(2::rat) powi (binade x + 1) \<le> 2 powi (binade y)"
    by (intro power_int_increasing) simp_all
  moreover have "rnd x \<le> 2 powi (binade x + 1)" using rnd_in_binade[of x] assms by simp
  moreover have "2 powi (binade y) \<le> rnd y" using rnd_in_binade[of y] assms by simp
  ultimately show ?thesis by linarith
qed

lemma rnd_nonneg: "0 \<le> rnd x"
  using rnd_in_binade[of x] by (cases "0 < x") (auto simp: rnd_def intro: order_trans[rotated])

lemma rnd_mono0: assumes "x \<le> y" shows "rnd x \<le> rnd y"
proof (cases "0 < x")
  case True then show ?thesis using assms by (rule rnd_mono)
next
  case False
  then have "rnd x = 0" by (simp add: rnd_def)
  then show ?thesis using rnd_nonneg[of y] by simp
qed


lemma rnd_1: "rnd 1 = 1" by code_simp
lemma rnd_100: "rnd 100 = 100" by code_simp
lemma rnd_below_1: "rnd (1 - 1 / 2 ^ 53) = 1 - 1 / 2 ^ 53" by code_simp
lemma rnd_below_100: "rnd ((1 - 1 / 2 ^ 53) * 100) < 100" by code_simp

lemma percent_Inr: "0 < m \<Longrightarrow> percent i m = Inr (percent_value i m)"
  by (simp add: percent_def truediv_def percent_value_def)

lemma percent_value_floor: "percent_value i m = \<lfloor>rnd (rnd (of_nat i / of_nat m) * 100)\<rfloor>"
  using rnd_nonneg[of "rnd (of_nat i / of_nat m) * 100"]
  by (simp add: percent_value_def float_mul_def int_of_float_def)

lemma percent_value_mono: "0 < m \<Longrightarrow> i \<le> j \<Longrightarrow> percent_value i m \<le> percent_value j m"
  unfolding percent_value_floor
  by (intro floor_mono rnd_mono0 mult_right_mono divide_right_mono) simp_all

lemma percent_value_full: "0 < m \<Longrightarrow> percent_value m m = 100"
  by (simp add: percent_value_floor rnd_1 rnd_100)

lemma percent_value_nonneg: "0 \<le> percent_value i m"
  unfolding percent_value_floor using rnd_nonneg by simp

lemma percent_value_below:
  assumes "i < m" "m \<le> 2 ^ 53"
  shows "percent_value i m < 100"
proof -
  have m: "0 < (of_nat m :: rat)" using assms by simp
  have "(of_nat m :: rat) \<le> of_nat (2 ^ 53)" using assms(2) by (simp only: of_nat_le_iff)
  then have m2: "(of_nat m :: rat) \<le> 2 ^ 53" by simp
  have "Suc i \<le> m" using assms(1) by simp
  then have "(of_nat (Suc i) :: rat) \<le> of_nat m" by (simp only: of_nat_le_iff)
  then have "of_nat i + 1 \<le> (of_nat m :: rat)" by simp
  then have "(of_nat i :: rat) / of_nat m \<le> (of_nat m - 1) / of_nat m"
    using m by (intro divide_right_mono) simp_all
  also have "\<dots> = 1 - 1 / of_nat m" using m by (simp add: diff_divide_distrib)
  also have "\<dots> \<le> 1 - 1 / 2 ^ 53"
    using m m2 by (simp add: frac_le)
  finally have "rnd (of_nat i / of_nat m) \<le> rnd (1 - 1 / 2 ^ 53)" by (rule rnd_mono0)
  then have "rnd (of_nat i / of_nat m) * 100 \<le> (1 - 1 / 2 ^ 53) * 100"
    by (simp only: rnd_below_1 mult_right_mono)
  then have "rnd (rnd (of_nat i / of_nat m) * 100) \<le> rnd ((1 - 1 / 2 ^ 53) * 100)"
    by (rule rnd_mono0)
  then have "rnd (rnd (of_nat i / of_nat m) * 100) < 100" using rnd_below_100 by linarith
  then show ?thesis unfolding percent_value_floor by (simp add: floor_less_iff)
qed

section \<open>The Snapshot worker\<close>

lemma progress_values_append [simp]:
  "progress_values (xs @ ys) = progress_values xs @ progress_values ys"
  by (induction xs rule: progress_values.induct) simp_all

lemma data_count_append [simp]: "data_count (xs @ ys) = data_count xs + data_count ys"
  by (induction xs rule: data_count.induct) simp_all

lemma process_loop_shape:
  assumes "i + length rest = n"
  shows "snd (process_loop env c n i rest) = None
     \<and> progress_values (fst (process_loop env c n i rest))
         = map (\<lambda>j. percent_value (Suc j) (min n c))
               [i..<i + data_count (fst (process_loop env c n i rest))]
     \<and> data_count (fst (process_loop env c n i rest)) \<le> min n c - i
     \<and> Finished \<notin> set (fst (process_loop env c n i rest))
     \<and> (data_count (fst (process_loop env c n i rest)) = min n c - i
          \<longleftrightarrow> (\<forall>j. i \<le> j \<and> j < min n c \<longrightarrow> is_running env j))"
  using assms
proof (induction rest arbitrary: i)
  case Nil
  then show ?case by (auto simp: process_loop.simps)
next
  case (Cons d rest)
  show ?case
  proof (cases "\<not> is_running env i \<or> c \<le> i")
    case True
    then have u: "process_loop env c n i (d # rest) = ([], None)"
      by (auto simp: process_loop.simps)
    have "i < n" using Cons.prems by simp
    with True have "min n c \<le> i \<longleftrightarrow> (\<forall>j. i \<le> j \<and> j < min n c \<longrightarrow> is_running env j)"
      by (metis leD le_refl min_less_iff_conj not_le_imp_less order.strict_trans2)
    then show ?thesis by (simp add: u)
  next
    case False
    with Cons.prems have m: "0 < min n c" "i < min n c" by auto
    have p: "percent (Suc i) (min n c) = Inr (percent_value (Suc i) (min n c))"
      using m by (simp add: percent_Inr)
    have ih: "Suc i + length rest = n" using Cons.prems by simp
    note IH = Cons.IH[OF ih]
    obtain sigs r where e: "process_loop env c n (Suc i) rest = (sigs, r)"
      by (cases "process_loop env c n (Suc i) rest")
    have all: "(\<forall>j. i \<le> j \<and> j < min n c \<longrightarrow> is_running env j)
       \<longleftrightarrow> (\<forall>j. Suc i \<le> j \<and> j < min n c \<longrightarrow> is_running env j)"
      using False by (metis Suc_leI le_antisym le_SucI not_less_eq_eq linorder_not_le)
    have unfold: "process_loop env c n i (d # rest)
        = (Data (data_with_meta env i d) # Progress (percent_value (Suc i) (min n c)) # sigs, r)"
      using False by (simp add: process_loop.simps p e)
    from IH have r: "r = None"
      and pv: "progress_values sigs
               = map (\<lambda>j. percent_value (Suc j) (min n c)) [Suc i..<Suc i + data_count sigs]"
      and le: "data_count sigs \<le> min n c - Suc i"
      and nf: "Finished \<notin> set sigs"
      and full: "data_count sigs = min n c - Suc i
                 \<longleftrightarrow> (\<forall>j. Suc i \<le> j \<and> j < min n c \<longrightarrow> is_running env j)"
      by (simp_all add: e)
    have 1: "snd (process_loop env c n i (d # rest)) = None" by (simp add: unfold r)
    have 2: "progress_values (fst (process_loop env c n i (d # rest)))
         = map (\<lambda>j. percent_value (Suc j) (min n c))
               [i..<i + data_count (fst (process_loop env c n i (d # rest)))]"
    proof -
      have "[i..<i + Suc (data_count sigs)] = i # [Suc i..<Suc i + data_count sigs]"
        by (simp add: upt_conv_Cons)
      then show ?thesis by (simp add: unfold pv)
    qed
    have 3: "data_count (fst (process_loop env c n i (d # rest))) \<le> min n c - i"
      using le m(2) unfolding unfold by (simp del: min_less_iff_conj)
    have 4: "Finished \<notin> set (fst (process_loop env c n i (d # rest)))"
      using nf by (simp add: unfold)
    have 5: "data_count (fst (process_loop env c n i (d # rest))) = min n c - i
          \<longleftrightarrow> (\<forall>j. i \<le> j \<and> j < min n c \<longrightarrow> is_running env j)"
    proof -
      have "Suc (data_count sigs) = min n c - i \<longleftrightarrow> data_count sigs = min n c - Suc i"
        using m(2) by arith
      then show ?thesis unfolding all unfolding unfold using full by simp
    qed
    from 1 2 3 4 5 show ?thesis by blast
  qed
qed


lemma run_shape_list:
  assumes "run_javascript env = Returns (ResultList r)" "r \<noteq> []"
  shows "run env c =
     (Status (lit ''Starting JustDial scraping from embedded browser...'')
      # Status (lit ''Found '' @ digits (length r) @ lit '' listings. Processing...'')
      # fst (process_loop env c (length r) 0 r)
      @ [Status (lit ''Finished processing '' @ digits (min (length r) c) @ lit '' listings.''),
         Finished], None)"
proof -
  have "snd (process_loop env c (length r) 0 r) = None"
    using process_loop_shape[of 0 r "length r" env c] by simp
  then obtain sigs where "process_loop env c (length r) 0 r = (sigs, None)"
    by (cases "process_loop env c (length r) 0 r") auto
  then show ?thesis using assms by (simp add: run_def process_results_def Let_def)
qed

lemma run_shape_empty:
  assumes "run_javascript env = Returns NotAList \<or> run_javascript env = Returns (ResultList [])"
  shows "run env c =
     ([Status (lit ''Starting JustDial scraping from embedded browser...''),
       Status (lit ''No listings found or invalid page structure.''), Finished], None)"
  using assms by (auto simp: run_def process_results_def Let_def)

lemma run_shape_raises:
  assumes "run_javascript env = Raises e"
  shows "run env c =
     ([Status (lit ''Starting JustDial scraping from embedded browser...''),
       Status (lit ''Error in JustDial scraper: '' @ e), Finished], None)"
  using assms by (auto simp: run_def process_results_def Let_def)


lemma run_progress:
  assumes "run_javascript env = Returns (ResultList r)" "r \<noteq> []"
  shows "progress_values (fst (run env c))
         = map (\<lambda>j. percent_value (Suc j) (min (length r) c)) [0..<data_count (fst (run env c))]
       \<and> data_count (fst (run env c)) \<le> min (length r) c
       \<and> (data_count (fst (run env c)) = min (length r) c
            \<longleftrightarrow> (\<forall>j. j < min (length r) c \<longrightarrow> is_running env j))"
  using process_loop_shape[of 0 r "length r" env c]
  by (simp add: run_shape_list[OF assms])

lemma percent_29_of_50: "percent_value 29 50 = 57"
  by code_simp

text \<open>
  Claim C6 says that the \<open>i\<close>-th progress value of a Snapshot run is
  \<open>floor(100 * i / min(n, c))\<close> and that the progress reaches 100 also when cancellation
  halts the run.  Neither holds.  With a batch of two records, cap 2, and the running
  flag cleared after the first record, the only progress value is 50: the run was halted
  by cancellation and never reached 100.  With a batch of fifty records and cap 50, the
  29th value is 57, whereas \<open>floor(100 * 29 / 50)\<close> is 58: \<open>29 / 50\<close> rounds to a
  double just below 0.58, and \<open>int\<close> truncates the product.
\<close>

theorem snapshot_progress_counterexample:
  "progress_values
     (fst (run (sample_env (\<lambda>k. True) (\<lambda>i. i < 1)
                  (Returns (ResultList [sample_record ''A'' ''x'', sample_record ''B'' ''y''])))
               2)) = [50]
   \<and> progress_values
       (fst (run (sample_env (\<lambda>k. True) (\<lambda>i. True)
                    (Returns (ResultList (replicate 50 (sample_record ''A'' ''x'')))))
                 50)) ! 28 = 57
   \<and> (100 * 29) div 50 = (58 :: int)"
proof -
  let ?E = "sample_env (\<lambda>k. True) (\<lambda>i. True)
              (Returns (ResultList (replicate 50 (sample_record ''A'' ''x''))))"
  have a: "progress_values
     (fst (run (sample_env (\<lambda>k. True) (\<lambda>i. i < 1)
                  (Returns (ResultList [sample_record ''A'' ''x'', sample_record ''B'' ''y''])))
               2)) = [50]"
    by code_simp
  have rj: "run_javascript ?E = Returns (ResultList (replicate 50 (sample_record ''A'' ''x'')))"
    by (simp add: sample_env_def)
  have ne: "replicate 50 (sample_record ''A'' ''x'') \<noteq> []" by simp
  note rp = run_progress[OF rj ne, of 50]
  have K: "data_count (fst (run ?E 50)) = 50" using rp by (simp add: sample_env_def)
  have "progress_values (fst (run ?E 50)) ! 28 = percent_value 29 50"
    using rp unfolding K by simp
  then have b: "progress_values (fst (run ?E 50)) ! 28 = 57" by (simp add: percent_29_of_50)
  from a b show ?thesis by simp
qed

text \<open>
  Claim C6, amended.  For a non-empty batch of \<open>n\<close> records and cap \<open>c\<close> (with
  \<open>min n c\<close> at most \<open>2^53\<close>), a Snapshot run emits one progress value per processed
  record; the values are non-decreasing and lie between 0 and 100; 100 is among them
  exactly when \<open>min n c\<close> records were processed, that is when the batch was exhausted or
  the cap reached; and that many are processed exactly when the running flag was set at
  every iteration below \<open>min n c\<close>, so a run that cancellation halts never emits 100.
\<close>

theorem snapshot_progress:
  assumes "run_javascript env = Returns (ResultList r)" and "r \<noteq> []"
    and "min (length r) c \<le> 2 ^ 53"
  shows "length (progress_values (fst (run env c))) = data_count (fst (run env c))
     \<and> sorted (progress_values (fst (run env c)))
     \<and> list_all (\<lambda>p. 0 \<le> p \<and> p \<le> 100) (progress_values (fst (run env c)))
     \<and> (100 \<in> set (progress_values (fst (run env c)))
          \<longleftrightarrow> 0 < c \<and> data_count (fst (run env c)) = min (length r) c)
     \<and> (data_count (fst (run env c)) = min (length r) c
          \<longleftrightarrow> (\<forall>j. j < min (length r) c \<longrightarrow> is_running env j))"
proof -
  define m where "m = min (length r) c"
  define K where "K = data_count (fst (run env c))"
  define pv where "pv = progress_values (fst (run env c))"
  have pv: "pv = map (\<lambda>j. percent_value (Suc j) m) [0..<K]"
    and K: "K \<le> m"
    and full: "K = m \<longleftrightarrow> (\<forall>j. j < m \<longrightarrow> is_running env j)"
    using run_progress[OF assms(1,2), of c] by (simp_all add: m_def K_def pv_def)
  have m53: "m \<le> 2 ^ 53" using assms(3) by (simp add: m_def)
  have 1: "length pv = K" by (simp add: pv)
  have 2: "sorted pv"
  proof -
    have "sorted_wrt (\<lambda>x y. percent_value (Suc x) m \<le> percent_value (Suc y) m) [0..<K]"
    proof (rule sorted_wrt_mono_rel[of _ "(<)"])
      fix x y assume "x \<in> set [0..<K]" "y \<in> set [0..<K]" "x < y"
      then have "0 < m" "Suc x \<le> Suc y" using K by auto
      then show "percent_value (Suc x) m \<le> percent_value (Suc y) m"
        by (rule percent_value_mono)
    qed simp
    then show ?thesis by (simp add: pv sorted_map)
  qed
  have le: "percent_value (Suc j) m \<le> 100" if "j < K" for j
  proof -
    have "0 < m" "Suc j \<le> m" using that K by auto
    then have "percent_value (Suc j) m \<le> percent_value m m" by (rule percent_value_mono)
    also have "\<dots> = 100" using \<open>0 < m\<close> by (rule percent_value_full)
    finally show ?thesis .
  qed
  have 3: "list_all (\<lambda>p. 0 \<le> p \<and> p \<le> 100) pv"
    using le by (auto simp: pv list_all_iff percent_value_nonneg)
  have hundred: "percent_value (Suc j) m = 100 \<longleftrightarrow> Suc j = m" if "j < K" for j
  proof
    assume "Suc j = m"
    then show "percent_value (Suc j) m = 100" using percent_value_full[of m] by auto
  next
    assume h: "percent_value (Suc j) m = 100"
    show "Suc j = m"
    proof (rule ccontr)
      assume "Suc j \<noteq> m"
      then have "Suc j < m" using that K by simp
      then have "percent_value (Suc j) m < 100" using m53 by (rule percent_value_below)
      with h show False by simp
    qed
  qed
  have 4: "100 \<in> set pv \<longleftrightarrow> 0 < c \<and> K = m"
  proof
    assume "100 \<in> set pv"
    then obtain j where j: "j < K" "percent_value (Suc j) m = 100" by (auto simp: pv)
    then have "Suc j = m" using hundred by simp
    then show "0 < c \<and> K = m" using j(1) K by (auto simp: m_def)
  next
    assume h: "0 < c \<and> K = m"
    then have "0 < m" using assms(2) by (simp add: m_def)
    then obtain j where j: "m = Suc j" by (cases m) auto
    then have "j < K" "percent_value (Suc j) m = 100" using h hundred[of j] by auto
    then show "100 \<in> set pv" unfolding pv by (metis (no_types, lifting) atLeast0LessThan imageI lessThan_iff set_map set_upt)
  qed
  from 1 2 3 4 full show ?thesis unfolding m_def K_def pv_def by blast
qed

theorem snapshot_progress_witness:
  "run_javascript (sample_env (\<lambda>k. True) (\<lambda>i. True)
       (Returns (ResultList [sample_record ''A'' ''x'', sample_record ''B'' ''y''])))
     = Returns (ResultList [sample_record ''A'' ''x'', sample_record ''B'' ''y''])
   \<and> [sample_record ''A'' ''x'', sample_record ''B'' ''y''] \<noteq> []
   \<and> min (length [sample_record ''A'' ''x'', sample_record ''B'' ''y'']) 2 \<le> (2::nat) ^ 53
   \<and> sorted (progress_values (fst (run (sample_env (\<lambda>k. True) (\<lambda>i. True)
         (Returns (ResultList [sample_record ''A'' ''x'', sample_record ''B'' ''y'']))) 2)))
   \<and> 100 \<in> set (progress_values (fst (run (sample_env (\<lambda>k. True) (\<lambda>i. True)
         (Returns (ResultList [sample_record ''A'' ''x'', sample_record ''B'' ''y'']))) 2)))
   \<and> 100 \<notin> set (progress_values (fst (run (sample_env (\<lambda>k. True) (\<lambda>i. i < 1)
         (Returns (ResultList [sample_record ''A'' ''x'', sample_record ''B'' ''y'']))) 2)))"
proof -
  let ?r = "[sample_record ''A'' ''x'', sample_record ''B'' ''y'']"
  let ?E = "sample_env (\<lambda>k. True) (\<lambda>i. True) (Returns (ResultList ?r))"
  let ?F = "sample_env (\<lambda>k. True) (\<lambda>i. i < 1) (Returns (ResultList ?r))"
  have e: "run_javascript ?E = Returns (ResultList ?r)" by (simp add: sample_env_def)
  have f: "run_javascript ?F = Returns (ResultList ?r)" by (simp add: sample_env_def)
  have ne: "?r \<noteq> []" by simp
  have b: "min (length ?r) 2 \<le> (2::nat) ^ 53" by simp
  note E = snapshot_progress[OF e ne b]
  note F = snapshot_progress[OF f ne b]
  have runE: "\<forall>j. j < min (length ?r) 2 \<longrightarrow> is_running ?E j" by (simp add: sample_env_def)
  have runF: "\<not> (\<forall>j. j < min (length ?r) 2 \<longrightarrow> is_running ?F j)"
    by (auto simp: sample_env_def intro!: exI[of _ 1])
  have 1: "sorted (progress_values (fst (run ?E 2)))" using E by blast
  have 2: "100 \<in> set (progress_values (fst (run ?E 2)))" using E runE by simp
  have 3: "100 \<notin> set (progress_values (fst (run ?F 2)))" using F runF by blast
  from e ne b 1 2 3 show ?thesis by blast
qed

lemma run_loop_no_finished:
  assumes "run_javascript env = Returns (ResultList r)" "r \<noteq> []"
  shows "Finished \<notin> set (fst (process_loop env c (length r) 0 r))"
  using process_loop_shape[of 0 r "length r" env c] by simp

lemma run_data_count:
  assumes "run_javascript env = Returns (ResultList r)" "r \<noteq> []"
  shows "data_count (fst (run env c)) = data_count (fst (process_loop env c (length r) 0 r))"
  by (simp add: run_shape_list[OF assms])

text \<open>
  Claim C9 says that every Snapshot run ends with one status line giving the number of
  records processed, then one finished signal.  The finished signal is there, but the
  status line before it is not always that count.  When the script call raises, the line
  is the error message.  When the running flag is cleared after the first of two
  records, one record was processed and the line says "Finished processing 2 listings.".
\<close>

theorem run_final_status_counterexample:
  "last (butlast (fst (run (sample_env (\<lambda>k. True) (\<lambda>i. True) (Raises (lit ''boom''))) 5)))
     = Status (lit ''Error in JustDial scraper: boom'')
   \<and> data_count (fst (run (sample_env (\<lambda>k. True) (\<lambda>i. True) (Raises (lit ''boom''))) 5)) = 0
   \<and> Status (lit ''Error in JustDial scraper: boom'')
       \<noteq> Status (lit ''Finished processing '' @ digits 0 @ lit '' listings.'')
   \<and> last (butlast (fst (run (sample_env (\<lambda>k. True) (\<lambda>i. i < 1)
          (Returns (ResultList [sample_record ''A'' ''x'', sample_record ''B'' ''y''])))
        2)))
     = Status (lit ''Finished processing 2 listings.'')
   \<and> data_count (fst (run (sample_env (\<lambda>k. True) (\<lambda>i. i < 1)
          (Returns (ResultList [sample_record ''A'' ''x'', sample_record ''B'' ''y''])))
        2)) = 1"
proof -
  let ?E = "sample_env (\<lambda>k. True) (\<lambda>i. True) (Raises (lit ''boom''))"
  let ?r = "[sample_record ''A'' ''x'', sample_record ''B'' ''y'']"
  let ?F = "sample_env (\<lambda>k. True) (\<lambda>i. i < 1) (Returns (ResultList ?r))"
  have e: "run_javascript ?E = Raises (lit ''boom'')" by (simp add: sample_env_def)
  have f: "run_javascript ?F = Returns (ResultList ?r)" by (simp add: sample_env_def)
  have l: "lit ''Error in JustDial scraper: '' @ lit ''boom'' = lit ''Error in JustDial scraper: boom''"
    by (simp add: lit_def)
  have 1: "last (butlast (fst (run ?E 5))) = Status (lit ''Error in JustDial scraper: boom'')"
    by (simp add: run_shape_raises[OF e] l)
  have 2: "data_count (fst (run ?E 5)) = 0"
    by (simp add: run_shape_raises[OF e])
  have 3: "lit ''Error in JustDial scraper: boom''
           \<noteq> lit ''Finished processing '' @ digits 0 @ lit '' listings.''"
    by code_simp
  have d: "lit ''Finished processing '' @ digits (min (length ?r) 2) @ lit '' listings.''
           = lit ''Finished processing 2 listings.''"
    by code_simp
  have "last (butlast (fst (run ?F 2)))
        = Status (lit ''Finished processing '' @ digits (min (length ?r) 2) @ lit '' listings.'')"
    by (subst run_shape_list[OF f]) (simp_all add: butlast_append)
  then have 4: "last (butlast (fst (run ?F 2))) = Status (lit ''Finished processing 2 listings.'')"
    by (simp only: d)
  have 5: "data_count (fst (run ?F 2)) = 1"
    by code_simp
  from 1 2 3 4 5 show ?thesis by simp
qed

text \<open>
  Claim C9, amended.  Every Snapshot run whose script call raises or returns emits exactly
  one finished signal, as its last signal, and no exception leaves the worker.  The
  signal before it is one status line: the error message when the call raised; "No
  listings found or invalid page structure." when the result is empty or not a list; and,
  when the batch is not empty and the running flag stays set up to the end (exhaustion or
  cap), "Finished processing k listings." with \<open>k\<close> the number of records processed.
\<close>

theorem run_finishes_once:
  "snd (run env c) = None
   \<and> count_list (fst (run env c)) Finished = 1
   \<and> last (fst (run env c)) = Finished
   \<and> (\<exists>msg. last (butlast (fst (run env c))) = Status msg)
   \<and> (\<forall>e. run_javascript env = Raises e \<longrightarrow>
         last (butlast (fst (run env c))) = Status (lit ''Error in JustDial scraper: '' @ e))
   \<and> (run_javascript env = Returns NotAList \<or> run_javascript env = Returns (ResultList []) \<longrightarrow>
         last (butlast (fst (run env c)))
         = Status (lit ''No listings found or invalid page structure.''))
   \<and> (\<forall>r. run_javascript env = Returns (ResultList r) \<and> r \<noteq> []
            \<and> (\<forall>j. j < min (length r) c \<longrightarrow> is_running env j) \<longrightarrow>
         last (butlast (fst (run env c)))
         = Status (lit ''Finished processing '' @ digits (data_count (fst (run env c)))
                   @ lit '' listings.''))"
proof (cases "run_javascript env")
  case (Raises e)
  show ?thesis by (simp add: run_shape_raises[OF Raises] Raises)
next
  case (Returns res)
  show ?thesis
  proof (cases "res = NotAList \<or> res = ResultList []")
    case True
    then have "run_javascript env = Returns NotAList \<or> run_javascript env = Returns (ResultList [])"
      using Returns by simp
    from run_shape_empty[OF this] True show ?thesis by (auto simp: Returns)
  next
    case False
    then obtain r where r: "res = ResultList r" "r \<noteq> []" by (cases res) auto
    then have rj: "run_javascript env = Returns (ResultList r)" using Returns by simp
    note sh = run_shape_list[OF rj r(2), of c]
    note nf = run_loop_no_finished[OF rj r(2), of c]
    have cnt: "count_list (fst (process_loop env c (length r) 0 r)) Finished = 0"
      using nf by (simp add: count_list_0_iff)
    have full: "(\<forall>j. j < min (length r) c \<longrightarrow> is_running env j)
        \<Longrightarrow> data_count (fst (run env c)) = min (length r) c"
      using run_progress[OF rj r(2), of c] by simp
    show ?thesis using cnt full r(2) by (auto simp: sh rj butlast_append)
  qed
qed

theorem run_finishes_once_witness:
  "snd (run (sample_env (\<lambda>k. True) (\<lambda>i. True)
          (Returns (ResultList [sample_record ''A'' ''x'', sample_record ''B'' ''y'']))) 5) = None
   \<and> count_list (fst (run (sample_env (\<lambda>k. True) (\<lambda>i. True)
          (Returns (ResultList [sample_record ''A'' ''x'', sample_record ''B'' ''y'']))) 5))
        Finished = 1
   \<and> last (butlast (fst (run (sample_env (\<lambda>k. True) (\<lambda>i. True)
          (Returns (ResultList [sample_record ''A'' ''x'', sample_record ''B'' ''y'']))) 5)))
     = Status (lit ''Finished processing 2 listings.'')
   \<and> last (butlast (fst (run (sample_env (\<lambda>k. True) (\<lambda>i. True) (Raises (lit ''boom''))) 5)))
     = Status (lit ''Error in JustDial scraper: boom'')
   \<and> last (butlast (fst (run (sample_env (\<lambda>k. True) (\<lambda>i. True) (Returns NotAList)) 5)))
     = Status (lit ''No listings found or invalid page structure.'')"
proof -
  let ?r = "[sample_record ''A'' ''x'', sample_record ''B'' ''y'']"
  let ?E = "sample_env (\<lambda>k. True) (\<lambda>i. True) (Returns (ResultList ?r))"
  let ?B = "sample_env (\<lambda>k. True) (\<lambda>i. True) (Raises (lit ''boom''))"
  let ?N = "sample_env (\<lambda>k. True) (\<lambda>i. True) (Returns NotAList)"
  note E = run_finishes_once[of ?E 5]
  note B = run_finishes_once[of ?B 5]
  note N = run_finishes_once[of ?N 5]
  have pre: "run_javascript ?E = Returns (ResultList ?r) \<and> ?r \<noteq> []
             \<and> (\<forall>j. j < min (length ?r) 5 \<longrightarrow> is_running ?E j)"
    by (simp add: sample_env_def)
  have k: "data_count (fst (run ?E 5)) = 2" by code_simp
  have d: "lit ''Finished processing '' @ digits 2 @ lit '' listings.''
           = lit ''Finished processing 2 listings.''"
    by code_simp
  have l: "lit ''Error in JustDial scraper: '' @ lit ''boom'' = lit ''Error in JustDial scraper: boom''"
    by (simp add: lit_def)
  have 1: "snd (run ?E 5) = None" using E by blast
  have 2: "count_list (fst (run ?E 5)) Finished = 1" using E by blast
  have "last (butlast (fst (run ?E 5)))
        = Status (lit ''Finished processing '' @ digits (data_count (fst (run ?E 5))) @ lit '' listings.'')"
    using E pre by blast
  then have 3: "last (butlast (fst (run ?E 5))) = Status (lit ''Finished processing 2 listings.'')"
    by (simp only: k d)
  have "run_javascript ?B = Raises (lit ''boom'')" by (simp add: sample_env_def)
  then have "last (butlast (fst (run ?B 5))) = Status (lit ''Error in JustDial scraper: '' @ lit ''boom'')"
    using B by blast
  then have 4: "last (butlast (fst (run ?B 5))) = Status (lit ''Error in JustDial scraper: boom'')"
    by (simp only: l)
  have "run_javascript ?N = Returns NotAList" by (simp add: sample_env_def)
  then have 5: "last (butlast (fst (run ?N 5)))
                = Status (lit ''No listings found or invalid page structure.'')"
    using N by blast
  from 1 2 3 4 5 show ?thesis by blast
qed

section \<open>The Maps crawl\<close>

lemma run_events_quiescent: "scheduled s = [] \<Longrightarrow> run_events k env s = Some (Inr s)"
  by (cases k) (simp_all add: run_events.simps)

lemma run_events_pending:
  "scheduled s = p # ps \<Longrightarrow>
   run_events (Suc m) env s =
     (case complete env p (s\<lparr>scheduled := ps\<rparr>) of
        Inl e \<Rightarrow> Some (Inl e) | Inr s' \<Rightarrow> run_events m env s')"
  by (simp add: step_def run_events.simps)

lemma maps_select_id_None:
  "maps_select_id rows n a = None \<longleftrightarrow> (n, a) \<notin> set (maps_keys rows)"
  by (auto simp: maps_select_id_def maps_keys_def find_None_iff)

lemma got_place_stores:
  assumes ok: "sql_ident_ok env (get_current_table env Maps s)"
    and tb: "maps_db s (get_current_table env Maps s) = Some rows"
    and ne: "links s \<noteq> []"
  shows "got_place env ts d s =
       Inr (s\<lparr>maps_db := (maps_db s)(get_current_table env Maps s \<mapsto>
                 store_place (current_keyword s) (current_location s) ts d rows),
              maps_status := maps_status s @ [store_line d rows],
              links_index := Suc (links_index s),
              maps_progress := maps_progress s
                 @ [percent_value (Suc (links_index s)) (length (links s))],
              scheduled := scheduled s @ [SingleShot 800 ProcessNextLink]\<rparr>)"
proof -
  let ?t = "get_current_table env Maps s"
  let ?data = "case d of None \<Rightarrow> Map.empty | Some x \<Rightarrow> x"
  have tr: "table_rows (sql_ident_ok env) (maps_db s) ?t = Inr rows"
    using ok tb by (simp add: table_rows_def)
  have pc: "percent (Suc (links_index s)) (length (links s))
            = Inr (percent_value (Suc (links_index s)) (length (links s)))"
    using ne by (simp add: percent_Inr)
  have same: "(maps_db s)(?t \<mapsto> rows) = maps_db s" using tb by (rule map_upd_triv)
  have pk: "place_key d = (dict_get ?data ''name'' [], dict_get ?data ''address'' [])"
    by (simp add: place_key_def Let_def)
  show ?thesis
  proof (cases "maps_select_id rows (dict_get ?data ''name'' []) (dict_get ?data ''address'' [])")
    case None
    then have k: "place_key d \<notin> set (maps_keys rows)"
      by (simp add: maps_select_id_None pk)
    have sp: "store_place (current_keyword s) (current_location s) ts d rows
              = rows @ [\<lparr>m_id = next_rowid rows,
                  m_name = dict_get ?data ''name'' [],
                  m_address = dict_get ?data ''address'' [],
                  m_phone = dict_get ?data ''phone'' [],
                  m_website = dict_get ?data ''website'' [],
                  m_keyword = current_keyword s,
                  m_location = current_location s,
                  m_scraped_at = ts\<rparr>]"
      using k by (simp add: store_place_def Let_def)
    have sl: "store_line d rows = lit ''Saved: '' @ dict_get ?data ''name'' []"
      using k by (simp add: store_line_def pk)
    show ?thesis unfolding sp sl using None
      by (simp add: got_place_def Let_def tr pc log_line_def)
  next
    case (Some i)
    then have k: "place_key d \<in> set (maps_keys rows)"
      using maps_select_id_None[of rows "dict_get ?data ''name'' []" "dict_get ?data ''address'' []"]
      by (simp add: pk)
    have sp: "store_place (current_keyword s) (current_location s) ts d rows = rows"
      using k by (simp add: store_place_def Let_def)
    have sl: "store_line d rows = lit ''Skipped duplicate: '' @ dict_get ?data ''name'' []"
      using k by (simp add: store_line_def pk)
    show ?thesis unfolding sp sl same using Some
      by (simp add: got_place_def Let_def tr pc log_line_def)
  qed
qed

lemma maps_cycle_stores:
  assumes q: "scheduled s = []" and i: "links_index s < length (links s)"
    and ok: "sql_ident_ok env (get_current_table env Maps s)"
    and tb: "maps_db s (get_current_table env Maps s) = Some rows"
    and ld: "load_ok env (length (web_loads s))"
  shows "run_events (Suc (Suc (Suc (Suc m)))) env (process_next_link s) =
     run_events m env (process_next_link
       (s\<lparr>next_action := Some ExtractPlace,
          web_loads := web_loads s @ [links s ! links_index s],
          js_calls := Suc (js_calls s),
          maps_db := (maps_db s)(get_current_table env Maps s \<mapsto>
             store_place (current_keyword s) (current_location s) (utcnow env (js_calls s))
               (place_result env (js_calls s)) rows),
          maps_status := maps_status s @ [store_line (place_result env (js_calls s)) rows],
          links_index := Suc (links_index s),
          maps_progress := maps_progress s
             @ [percent_value (Suc (links_index s)) (length (links s))]\<rparr>))"
proof -
  let ?u = "links s ! links_index s"
  let ?t = "get_current_table env Maps s"
  define s1 where "s1 = s\<lparr>next_action := Some ExtractPlace, web_loads := web_loads s @ [?u],
                           scheduled := [PageLoad ?u]\<rparr>"
  define s2 where "s2 = s1\<lparr>scheduled := [SingleShot 600 ExtractPlace]\<rparr>"
  define s3' where "s3' = s2\<lparr>js_calls := Suc (js_calls s), scheduled := []\<rparr>"
  define s3 where "s3 = s3'\<lparr>scheduled := [RunJavaScript GotPlace]\<rparr>"
  have p: "process_next_link s = s1" using q i by (simp add: process_next_link_def s1_def Let_def)
  have e1: "run_events (Suc (Suc (Suc (Suc m)))) env s1 = run_events (Suc (Suc (Suc m))) env s2"
    using ld by (subst run_events_pending[of _ "PageLoad ?u" "[]"])
      (simp_all add: s1_def s2_def complete_def on_load_finished_def)
  have e2: "run_events (Suc (Suc (Suc m))) env s2 = run_events (Suc (Suc m)) env s3"
    by (subst run_events_pending[of _ "SingleShot 600 ExtractPlace" "[]"])
      (simp_all add: s1_def s2_def s3_def s3'_def complete_def invoke_def extract_place_def)
  have t3: "get_current_table env Maps s3' = ?t"
    by (simp add: get_current_table_def s3'_def s2_def s1_def)
  have ok3: "sql_ident_ok env (get_current_table env Maps s3')" using ok by (simp only: t3)
  have tb3: "maps_db s3' (get_current_table env Maps s3') = Some rows"
    using tb unfolding t3 by (simp add: s3'_def s2_def s1_def)
  have ne3: "links s3' \<noteq> []" using i by (auto simp: s3'_def s2_def s1_def)
  note gp = got_place_stores[OF ok3 tb3 ne3, of "utcnow env (js_calls s)" "place_result env (js_calls s)"]
  define s4 where "s4 = s3'\<lparr>maps_db := (maps_db s3')(get_current_table env Maps s3' \<mapsto>
                 store_place (current_keyword s3') (current_location s3') (utcnow env (js_calls s))
                   (place_result env (js_calls s)) rows),
              maps_status := maps_status s3' @ [store_line (place_result env (js_calls s)) rows],
              links_index := Suc (links_index s3'),
              maps_progress := maps_progress s3'
                 @ [percent_value (Suc (links_index s3')) (length (links s3'))],
              scheduled := scheduled s3' @ [SingleShot 800 ProcessNextLink]\<rparr>"
  have "run_events (Suc (Suc m)) env s3 =
        (case got_place env (utcnow env (js_calls s)) (place_result env (js_calls s)) s3' of
           Inl e \<Rightarrow> Some (Inl e) | Inr x \<Rightarrow> run_events (Suc m) env x)"
    by (subst run_events_pending[of _ "RunJavaScript GotPlace" "[]"])
      (simp_all add: s3_def s3'_def complete_def invoke_def)
  then have e3: "run_events (Suc (Suc m)) env s3 = run_events (Suc m) env s4"
    by (simp only: gp s4_def sum.case)
  have e4: "run_events (Suc m) env s4 = run_events m env (process_next_link (s4\<lparr>scheduled := []\<rparr>))"
    by (subst run_events_pending[of _ "SingleShot 800 ProcessNextLink" "[]"])
      (simp_all add: s4_def s3'_def complete_def invoke_def)
  have fin: "s4\<lparr>scheduled := []\<rparr> = s\<lparr>next_action := Some ExtractPlace,
          web_loads := web_loads s @ [links s ! links_index s],
          js_calls := Suc (js_calls s),
          maps_db := (maps_db s)(get_current_table env Maps s \<mapsto>
             store_place (current_keyword s) (current_location s) (utcnow env (js_calls s))
               (place_result env (js_calls s)) rows),
          maps_status := maps_status s @ [store_line (place_result env (js_calls s)) rows],
          links_index := Suc (links_index s),
          maps_progress := maps_progress s
             @ [percent_value (Suc (links_index s)) (length (links s))]\<rparr>"
    using q unfolding t3[symmetric] by (simp add: s4_def s3'_def s2_def s1_def)
  show ?thesis unfolding p e1 e2 e3 e4 fin by (rule refl)
qed

lemma maps_run_stores:
  assumes "scheduled s = []"
    and "sql_ident_ok env (get_current_table env Maps s)"
    and "maps_db s (get_current_table env Maps s) = Some rows"
    and "\<forall>k. k < length (links s) - links_index s \<longrightarrow> load_ok env (length (web_loads s) + k)"
  shows "\<exists>sf. run_events (4 * (length (links s) - links_index s) + fuel) env (process_next_link s)
               = Some (Inr sf)
       \<and> web_loads sf = web_loads s @ drop (links_index s) (links s)
       \<and> maps_progress sf = maps_progress s
           @ map (\<lambda>j. percent_value (Suc j) (length (links s))) [links_index s..<length (links s)]
       \<and> js_calls sf = js_calls s + (length (links s) - links_index s)
       \<and> maps_db sf = (maps_db s)(get_current_table env Maps s \<mapsto>
             fst (store_cycles env (current_keyword s) (current_location s) (js_calls s)
                    (length (links s) - links_index s) rows))
       \<and> maps_status sf = maps_status s
           @ snd (store_cycles env (current_keyword s) (current_location s) (js_calls s)
                    (length (links s) - links_index s) rows)
           @ [lit ''Scraping finished.'']
       \<and> current_keyword sf = current_keyword s \<and> current_location sf = current_location s
       \<and> links_index sf = max (links_index s) (length (links s))
       \<and> links sf = links s \<and> \<not> scraping sf \<and> scheduled sf = []"
  using assms
proof (induction "length (links s) - links_index s" arbitrary: s rows)
  case 0
  then have fin: "length (links s) \<le> links_index s" by simp
  let ?sf = "process_next_link s"
  have same: "(maps_db s)(get_current_table env Maps s \<mapsto> rows) = maps_db s"
    using 0(4) by (rule map_upd_triv)
  have "scheduled ?sf = []" using fin 0
    by (simp add: process_next_link_def refresh_keyword_tables_def log_line_def)
  then have "run_events (4 * (length (links s) - links_index s) + fuel) env ?sf = Some (Inr ?sf)"
    by (rule run_events_quiescent)
  then show ?case using fin 0(2) same
    by (auto simp: process_next_link_def refresh_keyword_tables_def log_line_def max_def 0(1)[symmetric])
next
  case (Suc d)
  let ?n = "length (links s)" and ?i = "links_index s"
  let ?t = "get_current_table env Maps s"
  have i: "?i < ?n" and d: "d = ?n - Suc ?i" using Suc.hyps(2) by simp_all
  have ld: "load_ok env (length (web_loads s))" using Suc.prems(4) i by force
  have fuel: "4 * (?n - ?i) + fuel = Suc (Suc (Suc (Suc (4 * d + fuel))))"
    using Suc.hyps(2)[symmetric] by simp
  define rows1 where "rows1 = store_place (current_keyword s) (current_location s)
     (utcnow env (js_calls s)) (place_result env (js_calls s)) rows"
  define line1 where "line1 = store_line (place_result env (js_calls s)) rows"
  define s' where "s' = s\<lparr>next_action := Some ExtractPlace,
          web_loads := web_loads s @ [links s ! links_index s],
          js_calls := Suc (js_calls s),
          maps_db := (maps_db s)(?t \<mapsto> rows1),
          maps_status := maps_status s @ [line1],
          links_index := Suc (links_index s),
          maps_progress := maps_progress s
             @ [percent_value (Suc (links_index s)) (length (links s))]\<rparr>"
  have cyc: "run_events (Suc (Suc (Suc (Suc (4 * d + fuel))))) env (process_next_link s) =
     run_events (4 * d + fuel) env (process_next_link s')"
    using maps_cycle_stores[OF Suc.prems(1) i Suc.prems(2) Suc.prems(3) ld, of "4 * d + fuel"]
    by (simp only: s'_def rows1_def line1_def)
  have t: "get_current_table env Maps s' = ?t"
    by (simp add: get_current_table_def s'_def)
  have h1: "d = length (links s') - links_index s'" using d by (simp add: s'_def)
  have h2: "scheduled s' = []" using Suc.prems(1) by (simp add: s'_def)
  have h3: "sql_ident_ok env (get_current_table env Maps s')" using Suc.prems(2) by (simp only: t)
  have h4: "maps_db s' (get_current_table env Maps s') = Some rows1"
    unfolding t by (simp add: s'_def)
  have h5: "\<forall>k. k < length (links s') - links_index s' \<longrightarrow> load_ok env (length (web_loads s') + k)"
  proof (intro allI impI)
    fix k assume "k < length (links s') - links_index s'"
    then have "Suc k < ?n - ?i" by (simp add: s'_def)
    then have "load_ok env (length (web_loads s) + Suc k)" using Suc.prems(4) by blast
    then show "load_ok env (length (web_loads s') + k)" by (simp add: s'_def)
  qed
  obtain sf where sf: "run_events (4 * (length (links s') - links_index s') + fuel) env (process_next_link s')
               = Some (Inr sf)"
       "web_loads sf = web_loads s' @ drop (links_index s') (links s')"
       "maps_progress sf = maps_progress s'
           @ map (\<lambda>j. percent_value (Suc j) (length (links s'))) [links_index s'..<length (links s')]"
       "js_calls sf = js_calls s' + (length (links s') - links_index s')"
       "maps_db sf = (maps_db s')(get_current_table env Maps s' \<mapsto>
             fst (store_cycles env (current_keyword s') (current_location s') (js_calls s')
                    (length (links s') - links_index s') rows1))"
       "maps_status sf = maps_status s'
           @ snd (store_cycles env (current_keyword s') (current_location s') (js_calls s')
                    (length (links s') - links_index s') rows1)
           @ [lit ''Scraping finished.'']"
       "current_keyword sf = current_keyword s'" "current_location sf = current_location s'"
       "links_index sf = max (links_index s') (length (links s'))"
       "links sf = links s'" "\<not> scraping sf" "scheduled sf = []"
    using Suc.hyps(1)[OF h1 h2 h3 h4 h5] by blast
  have sc: "store_cycles env (current_keyword s) (current_location s) (js_calls s) (Suc d) rows
      = (fst (store_cycles env (current_keyword s) (current_location s) (Suc (js_calls s)) d rows1),
         line1 # snd (store_cycles env (current_keyword s) (current_location s) (Suc (js_calls s)) d rows1))"
    by (simp add: rows1_def line1_def split: prod.splits)
  have nd: "?n - ?i = Suc d" using Suc.hyps(2) by simp
  have 1: "run_events (4 * (?n - ?i) + fuel) env (process_next_link s) = Some (Inr sf)"
    unfolding fuel cyc using sf(1) by (simp add: h1[symmetric])
  have 2: "web_loads sf = web_loads s @ drop ?i (links s)"
    using sf(2) i by (simp add: s'_def Cons_nth_drop_Suc)
  have 3: "maps_progress sf = maps_progress s
           @ map (\<lambda>j. percent_value (Suc j) ?n) [?i..<?n]"
    using sf(3) i by (simp add: s'_def upt_conv_Cons)
  have 4: "js_calls sf = js_calls s + (?n - ?i)" using sf(4) i by (simp add: s'_def)
  have 5: "maps_db sf = (maps_db s)(?t \<mapsto>
             fst (store_cycles env (current_keyword s) (current_location s) (js_calls s)
                    (?n - ?i) rows))"
    using sf(5) unfolding t nd sc h1[symmetric] by (simp add: s'_def)
  have 6: "maps_status sf = maps_status s
           @ snd (store_cycles env (current_keyword s) (current_location s) (js_calls s)
                    (?n - ?i) rows)
           @ [lit ''Scraping finished.'']"
    using sf(6) unfolding nd sc h1[symmetric] by (simp add: s'_def)
  have 7: "current_keyword sf = current_keyword s" "current_location sf = current_location s"
    using sf(7,8) by (simp_all add: s'_def)
  have 8: "links_index sf = max ?i ?n" using sf(9) i by (simp add: s'_def max_def)
  have 9: "links sf = links s" using sf(10) by (simp add: s'_def)
  from 1 2 3 4 5 6 7 8 9 sf(11,12) show ?case by blast
qed

lemma start_scrape_creates:
  assumes "links s \<noteq> []" and "sql_ident_ok env (get_current_table env Maps s)"
  shows "start_scrape env s =
           Inr (process_next_link
                  (s\<lparr>maps_db := (maps_db s)(get_current_table env Maps s \<mapsto> maps_table env s),
                     scraping := True, links_index := 0,
                     maps_progress := maps_progress s @ [0]\<rparr>))"
proof (cases "maps_db s (get_current_table env Maps s)")
  case None
  then have "maps_table env s = []" by (simp add: maps_table_def)
  then show ?thesis using assms None
    by (simp add: start_scrape_def ensure_table_def create_table_if_not_exists_def
        get_current_table_def Let_def)
next
  case (Some rows)
  then have mt: "maps_table env s = rows" by (simp add: maps_table_def)
  have same: "(maps_db s)(get_current_table env Maps s \<mapsto> rows) = maps_db s"
    using Some by (rule map_upd_triv)
  show ?thesis unfolding mt same using assms Some
    by (simp add: start_scrape_def ensure_table_def create_table_if_not_exists_def
        get_current_table_def Let_def)
qed


lemma percent_1_of_2: "percent_value (Suc 0) (Suc (Suc 0)) = 50" by code_simp
lemma percent_2_of_2: "percent_value (Suc (Suc 0)) (Suc (Suc 0)) = 100" by code_simp

text \<open>
  Claim C3 says that with the collected targets \<open>[A, B, C]\<close> and a cap of 2 exactly two
  cycles run and \<open>C\<close> is never loaded.  The cap is read in \<open>_got_links\<close> only, where the
  result of the link script is cut to \<open>hrefs[:max_links]\<close>; \<open>start_scrape\<close> and
  \<open>_process_next_link\<close> walk the whole of \<open>self.links\<close>.  With \<open>[A, B, C]\<close> collected
  (under the default cap of 30) and the cap then set to 2, the crawl loads \<open>A\<close>, \<open>B\<close> and
  \<open>C\<close>, runs three extraction scripts, and the progress bar receives 0, 33, 66, 100.
\<close>

theorem cap_after_collection_counterexample:
  "map_sum id (\<lambda>s. (links s, max_links_input s, web_loads s, js_calls s, maps_progress s))
     (and_then
        (start_scrape (sample_env (\<lambda>k. True) (\<lambda>i. True) (Returns NotAList))
           ((got_links (Some [lit ''A'', lit ''B'', lit ''C'']) sample_gui)
              \<lparr>max_links_input := 2\<rparr>))
        (steps 12 (sample_env (\<lambda>k. True) (\<lambda>i. True) (Returns NotAList))))
   = Inr ([lit ''A'', lit ''B'', lit ''C''], 2, [lit ''A'', lit ''B'', lit ''C''], 3,
          [0, 33, 66, 100])"
  by code_simp

text \<open>
  Claim C3, amended.  The cap (\<open>max_links_input\<close>) is applied when the links are
  collected: with the cap at 2 and the link script returning \<open>[A, B, C]\<close>, \<open>_got_links\<close>
  keeps \<open>[A, B]\<close>.  With the two page loads succeeding and the table name accepted,
  starting the scrape and running the event loop (eight events are enough, more change
  nothing) ends in a quiescent state in which exactly two extraction-and-store cycles
  were run, in the order \<open>A\<close>, \<open>B\<close>; \<open>C\<close> is never loaded.  Each cycle looks its extraction
  result up in the query's table by (name, address), appends a row holding the extracted
  fields, the query and the time when the key is absent and logs \<open>Saved: name\<close>, and
  leaves the table as it is and logs \<open>Skipped duplicate: name\<close> otherwise
  (\<open>store_place\<close>, \<open>store_line\<close>): the table at the end is the table at the start (created
  empty if it did not exist) after the store step for \<open>A\<close> and then the one for \<open>B\<close>, no
  other table is touched, and the log receives the collection line, the two store lines
  and \<open>Scraping finished.\<close>.  The progress bar, reset to 0 by \<open>start_scrape\<close>, receives 50
  and then 100.
\<close>

theorem sequential_two_of_three:
  assumes "scheduled s = []" and "max_links_input s = 2"
    and "sql_ident_ok env (get_current_table env Maps s)"
    and "load_ok env (length (web_loads s))" and "load_ok env (Suc (length (web_loads s)))"
  shows "\<exists>s1 sf. start_scrape env (got_links (Some [A, B, C]) s) = Inr s1
        \<and> run_events (8 + fuel) env s1 = Some (Inr sf)
        \<and> links sf = [A, B]
        \<and> web_loads sf = web_loads s @ [A, B]
        \<and> maps_progress sf = maps_progress s @ [0, 50, 100]
        \<and> js_calls sf = js_calls s + 2
        \<and> maps_db sf = (maps_db s)(get_current_table env Maps s \<mapsto>
             store_place (current_keyword s) (current_location s)
               (utcnow env (Suc (js_calls s))) (place_result env (Suc (js_calls s)))
               (store_place (current_keyword s) (current_location s)
                  (utcnow env (js_calls s)) (place_result env (js_calls s))
                  (maps_table env s)))
        \<and> maps_status sf = maps_status s @
             [lit ''Collected '' @ digits 2 @ lit '' links. Ready to scrape.'',
              store_line (place_result env (js_calls s)) (maps_table env s),
              store_line (place_result env (Suc (js_calls s)))
                (store_place (current_keyword s) (current_location s)
                   (utcnow env (js_calls s)) (place_result env (js_calls s))
                   (maps_table env s)),
              lit ''Scraping finished.'']
        \<and> length (maps_status sf) = length (maps_status s) + 4
        \<and> current_keyword sf = current_keyword s \<and> current_location sf = current_location s
        \<and> links_index sf = 2 \<and> \<not> scraping sf \<and> scheduled sf = []"
proof -
  define msg where "msg = lit ''Collected '' @ digits (Suc (Suc 0)) @ lit '' links. Ready to scrape.''"
  define s0 where "s0 = s\<lparr>links := [A, B], links_index := 0, maps_status := maps_status s @ [msg]\<rparr>"
  have g: "got_links (Some [A, B, C]) s = s0"
    using assms(2) by (simp add: got_links_def Let_def log_line_def s0_def msg_def)
  have t0: "get_current_table env Maps s0 = get_current_table env Maps s"
    by (simp add: get_current_table_def s0_def)
  have mt0: "maps_table env s0 = maps_table env s"
    by (simp add: maps_table_def t0) (simp add: s0_def)
  have ne: "links s0 \<noteq> []" by (simp add: s0_def)
  have ok0: "sql_ident_ok env (get_current_table env Maps s0)" using assms(3) by (simp only: t0)
  define s1 where "s1 = s0\<lparr>maps_db := (maps_db s0)(get_current_table env Maps s0 \<mapsto> maps_table env s0),
                     scraping := True, links_index := 0,
                     maps_progress := maps_progress s0 @ [0]\<rparr>"
  have st: "start_scrape env s0 = Inr (process_next_link s1)"
    unfolding s1_def by (rule start_scrape_creates[OF ne ok0])
  have t1: "get_current_table env Maps s1 = get_current_table env Maps s"
    by (simp add: get_current_table_def s1_def s0_def)
  have h1: "scheduled s1 = []" using assms(1) by (simp add: s1_def s0_def)
  have h2: "sql_ident_ok env (get_current_table env Maps s1)" using assms(3) by (simp only: t1)
  have h3: "maps_db s1 (get_current_table env Maps s1) = Some (maps_table env s)"
    unfolding t1 by (simp add: s1_def t0 mt0)
  have h4: "\<forall>k. k < length (links s1) - links_index s1 \<longrightarrow> load_ok env (length (web_loads s1) + k)"
  proof (intro allI impI)
    fix k assume "k < length (links s1) - links_index s1"
    then have "k = 0 \<or> k = 1" by (auto simp: s1_def s0_def)
    then show "load_ok env (length (web_loads s1) + k)"
      using assms(4,5) by (auto simp: s1_def s0_def)
  qed
  have len: "4 * (length (links s1) - links_index s1) + fuel = 8 + fuel"
    by (simp add: s1_def s0_def)
  have two: "length (links s1) - links_index s1 = Suc (Suc 0)" by (simp add: s1_def s0_def)
  obtain sf where sf: "run_events (4 * (length (links s1) - links_index s1) + fuel) env (process_next_link s1)
               = Some (Inr sf)"
       "web_loads sf = web_loads s1 @ drop (links_index s1) (links s1)"
       "maps_progress sf = maps_progress s1
           @ map (\<lambda>j. percent_value (Suc j) (length (links s1))) [links_index s1..<length (links s1)]"
       "js_calls sf = js_calls s1 + (length (links s1) - links_index s1)"
       "maps_db sf = (maps_db s1)(get_current_table env Maps s1 \<mapsto>
             fst (store_cycles env (current_keyword s1) (current_location s1) (js_calls s1)
                    (length (links s1) - links_index s1) (maps_table env s)))"
       "maps_status sf = maps_status s1
           @ snd (store_cycles env (current_keyword s1) (current_location s1) (js_calls s1)
                    (length (links s1) - links_index s1) (maps_table env s))
           @ [lit ''Scraping finished.'']"
       "current_keyword sf = current_keyword s1" "current_location sf = current_location s1"
       "links_index sf = max (links_index s1) (length (links s1))"
       "links sf = links s1" "\<not> scraping sf" "scheduled sf = []"
    using maps_run_stores[OF h1 h2 h3 h4, of fuel] by blast
  have "maps_db s1 = (maps_db s0)(get_current_table env Maps s0 \<mapsto> maps_table env s0)"
    by (simp add: s1_def)
  moreover have "maps_db s0 = maps_db s" by (simp add: s0_def)
  ultimately have db1: "maps_db s1
      = (maps_db s)(get_current_table env Maps s \<mapsto> maps_table env s)"
    by (simp only: t0 mt0)
  have f1: "current_keyword s1 = current_keyword s" "current_location s1 = current_location s"
    "js_calls s1 = js_calls s"
    by (simp_all add: s1_def s0_def)
  have st1: "maps_status s1 = maps_status s @ [msg]" by (simp add: s1_def s0_def)
  have upt: "[0..<2] = [0, Suc 0]" by (simp add: upt_rec)
  have d2: "digits 2 = digits (Suc (Suc 0))" by (simp add: numeral_2_eq_2)
  have 1: "start_scrape env (got_links (Some [A, B, C]) s) = Inr (process_next_link s1)"
    by (simp only: g st)
  have 2: "run_events (8 + fuel) env (process_next_link s1) = Some (Inr sf)"
    using sf(1) by (simp only: len)
  have 3: "web_loads sf = web_loads s @ [A, B]" using sf(2) by (simp add: s1_def s0_def)
  have 4: "maps_progress sf = maps_progress s @ [0, 50, 100]"
    using sf(3) by (simp add: s1_def s0_def upt percent_1_of_2 percent_2_of_2)
  have 5: "js_calls sf = js_calls s + 2" using sf(4) by (simp add: s1_def s0_def)
  have 6: "maps_db sf = (maps_db s)(get_current_table env Maps s \<mapsto>
             store_place (current_keyword s) (current_location s)
               (utcnow env (Suc (js_calls s))) (place_result env (Suc (js_calls s)))
               (store_place (current_keyword s) (current_location s)
                  (utcnow env (js_calls s)) (place_result env (js_calls s))
                  (maps_table env s)))"
    using sf(5) unfolding two t1 db1 f1 by simp
  have 7: "maps_status sf = maps_status s @
             [lit ''Collected '' @ digits 2 @ lit '' links. Ready to scrape.'',
              store_line (place_result env (js_calls s)) (maps_table env s),
              store_line (place_result env (Suc (js_calls s)))
                (store_place (current_keyword s) (current_location s)
                   (utcnow env (js_calls s)) (place_result env (js_calls s))
                   (maps_table env s)),
              lit ''Scraping finished.'']"
    using sf(6) unfolding two d2 f1 st1 by (simp add: msg_def)
  have 8: "length (maps_status sf) = length (maps_status s) + 4" by (simp add: 7)
  have 9: "current_keyword sf = current_keyword s" "current_location sf = current_location s"
    using sf(7,8) by (simp_all add: s1_def s0_def)
  have 10: "links_index sf = 2" using sf(9) by (simp add: s1_def s0_def)
  have 11: "links sf = [A, B]" using sf(10) by (simp add: s1_def s0_def)
  from 1 2 11 3 4 5 6 7 8 9 10 sf(11,12) show ?thesis by blast
qed

text \<open>
  Claim C7.  Starting a Sequential scrape with no collected targets only shows the
  "No links" message box: every field of the window other than the list of dialogs is as
  before, so no page load is issued, nothing is written to the store, nothing is
  scheduled, and the targets, the cursor and the running flag are unchanged.
\<close>

theorem start_scrape_no_links:
  assumes "links s = []"
  shows "start_scrape env s
         = Inr (s\<lparr>dialogs := dialogs s @ [(''No links'', ''Collect links first.'')]\<rparr>)"
  using assms by (simp add: start_scrape_def)

text \<open>
  Claim C4 says that after a page load that finishes with \<open>ok = False\<close> the cursor still
  advances and the crawl goes on with the next target.  The code does not do that:
  \<open>_on_load_finished\<close> schedules nothing when \<open>ok\<close> is false, so the event loop falls
  silent with the cursor where it was.  From any state with nothing pending and a target
  left, if the load of that target fails, the run ends in the state in which only the load
  was recorded: no extraction, no write, the same \<open>links_index\<close>, nothing scheduled, and
  the \<open>scraping\<close> flag as it was.
\<close>

theorem load_failure_stalls:
  assumes "scheduled s = []" and "links_index s < length (links s)"
    and "\<not> load_ok env (length (web_loads s))"
  shows "run_events (Suc fuel) env (process_next_link s)
         = Some (Inr (s\<lparr>next_action := Some ExtractPlace,
                         web_loads := web_loads s @ [links s ! links_index s]\<rparr>))"
proof -
  let ?u = "links s ! links_index s"
  define s1 where "s1 = s\<lparr>next_action := Some ExtractPlace, web_loads := web_loads s @ [?u],
                           scheduled := [PageLoad ?u]\<rparr>"
  define s2 where "s2 = s\<lparr>next_action := Some ExtractPlace, web_loads := web_loads s @ [?u]\<rparr>"
  have p: "process_next_link s = s1"
    using assms(1,2) by (simp add: process_next_link_def s1_def Let_def)
  have "run_events (Suc fuel) env s1 = run_events fuel env (s1\<lparr>scheduled := []\<rparr>)"
    using assms(3) by (subst run_events_pending[of _ "PageLoad ?u" "[]"])
      (simp_all add: s1_def complete_def on_load_finished_def)
  also have "s1\<lparr>scheduled := []\<rparr> = s2" using assms(1) by (simp add: s1_def s2_def)
  also have "run_events fuel env s2 = Some (Inr s2)"
    using assms(1) by (intro run_events_quiescent) (simp add: s2_def)
  finally show ?thesis by (simp add: p s2_def)
qed

text \<open>
  Claim C8, amended.  In Sequential Mode the advance check does not consult the running
  flag: whenever a target is left (\<open>links_index < len(links)\<close>), \<open>_process_next_link\<close>
  loads \<open>links[links_index]\<close> whatever the flag is, and leaves the flag as it finds it; so
  with the flag cleared during \<open>B\<close> the next advance still loads \<open>C\<close>.  The crawl stops
  only when the cursor has passed the last target.
\<close>

theorem process_next_link_ignores_flag:
  assumes "links_index s < length (links s)"
  shows "process_next_link (s\<lparr>scraping := b\<rparr>) = (process_next_link s)\<lparr>scraping := b\<rparr>
       \<and> web_loads (process_next_link (s\<lparr>scraping := False\<rparr>))
           = web_loads s @ [links s ! links_index s]
       \<and> scheduled (process_next_link (s\<lparr>scraping := False\<rparr>))
           = scheduled s @ [PageLoad (links s ! links_index s)]"
  using assms by (simp add: process_next_link_def Let_def)


theorem sequential_two_of_three_witness:
  "scheduled (sample_gui\<lparr>max_links_input := 2\<rparr>) = []
   \<and> max_links_input (sample_gui\<lparr>max_links_input := 2\<rparr>) = 2
   \<and> sql_ident_ok
        ((sample_env (\<lambda>k. True) (\<lambda>i. True) (Returns NotAList))
           \<lparr>place_result := \<lambda>k. Some (if k = 0 then sample_record ''Cafe A'' ''MG Road''
                                        else sample_record ''Cafe B'' ''FC Road'')\<rparr>)
        (get_current_table
           ((sample_env (\<lambda>k. True) (\<lambda>i. True) (Returns NotAList))
              \<lparr>place_result := \<lambda>k. Some (if k = 0 then sample_record ''Cafe A'' ''MG Road''
                                           else sample_record ''Cafe B'' ''FC Road'')\<rparr>)
           Maps (sample_gui\<lparr>max_links_input := 2\<rparr>))
   \<and> load_ok
        ((sample_env (\<lambda>k. True) (\<lambda>i. True) (Returns NotAList))
           \<lparr>place_result := \<lambda>k. Some (if k = 0 then sample_record ''Cafe A'' ''MG Road''
                                        else sample_record ''Cafe B'' ''FC Road'')\<rparr>) 0
   \<and> load_ok
        ((sample_env (\<lambda>k. True) (\<lambda>i. True) (Returns NotAList))
           \<lparr>place_result := \<lambda>k. Some (if k = 0 then sample_record ''Cafe A'' ''MG Road''
                                        else sample_record ''Cafe B'' ''FC Road'')\<rparr>) 1
   \<and> (\<exists>s1 sf.
         start_scrape
           ((sample_env (\<lambda>k. True) (\<lambda>i. True) (Returns NotAList))
              \<lparr>place_result := \<lambda>k. Some (if k = 0 then sample_record ''Cafe A'' ''MG Road''
                                           else sample_record ''Cafe B'' ''FC Road'')\<rparr>)
           (got_links (Some [lit ''A'', lit ''B'', lit ''C''])
              (sample_gui\<lparr>max_links_input := 2\<rparr>)) = Inr s1
       \<and> run_events 8
           ((sample_env (\<lambda>k. True) (\<lambda>i. True) (Returns NotAList))
              \<lparr>place_result := \<lambda>k. Some (if k = 0 then sample_record ''Cafe A'' ''MG Road''
                                           else sample_record ''Cafe B'' ''FC Road'')\<rparr>)
           s1 = Some (Inr sf)
       \<and> web_loads sf = [lit ''A'', lit ''B'']
       \<and> maps_progress sf = [0, 50, 100]
       \<and> js_calls sf = 2 \<and> links_index sf = 2 \<and> \<not> scraping sf \<and> scheduled sf = []
       \<and> map_option (map (\<lambda>r. (m_id r, m_name r, m_address r, m_keyword r)))
            (maps_db sf (lit ''cafes_pune''))
          = Some [(1, lit ''Cafe A'', lit ''MG Road'', lit ''Cafes''),
                  (2, lit ''Cafe B'', lit ''FC Road'', lit ''Cafes'')]
       \<and> maps_status sf
          = [lit ''Collected 2 links. Ready to scrape.'', lit ''Saved: Cafe A'',
             lit ''Saved: Cafe B'', lit ''Scraping finished.''])"
proof -
  let ?E = "(sample_env (\<lambda>k. True) (\<lambda>i. True) (Returns NotAList))
              \<lparr>place_result := \<lambda>k. Some (if k = 0 then sample_record ''Cafe A'' ''MG Road''
                                           else sample_record ''Cafe B'' ''FC Road'')\<rparr>"
  let ?G = "sample_gui\<lparr>max_links_input := 2\<rparr>"
  have 1: "scheduled ?G = []" by (simp add: sample_gui_def init_gui_def)
  have 2: "max_links_input ?G = 2" by simp
  have 3: "sql_ident_ok ?E (get_current_table ?E Maps ?G)" by (simp add: sample_env_def)
  have w: "web_loads ?G = []" "maps_progress ?G = []" "js_calls ?G = 0"
    by (simp_all add: sample_gui_def init_gui_def)
  have 4: "load_ok ?E (length (web_loads ?G))" and 5: "load_ok ?E (Suc (length (web_loads ?G)))"
    by (simp_all add: sample_env_def)
  have l0: "load_ok ?E 0" and l1: "load_ok ?E 1" by (simp_all add: sample_env_def)
  from sequential_two_of_three[OF 1 2 3 4 5, of "lit ''A''" "lit ''B''" "lit ''C''" 0]
  obtain s1 sf where r:
    "start_scrape ?E (got_links (Some [lit ''A'', lit ''B'', lit ''C'']) ?G) = Inr s1"
    "run_events (8 + 0) ?E s1 = Some (Inr sf)"
    "web_loads sf = web_loads ?G @ [lit ''A'', lit ''B'']"
    "maps_progress sf = maps_progress ?G @ [0, 50, 100]"
    "js_calls sf = js_calls ?G + 2"
    "maps_db sf = (maps_db ?G)(get_current_table ?E Maps ?G \<mapsto>
             store_place (current_keyword ?G) (current_location ?G)
               (utcnow ?E (Suc (js_calls ?G))) (place_result ?E (Suc (js_calls ?G)))
               (store_place (current_keyword ?G) (current_location ?G)
                  (utcnow ?E (js_calls ?G)) (place_result ?E (js_calls ?G))
                  (maps_table ?E ?G)))"
    "maps_status sf = maps_status ?G @
             [lit ''Collected '' @ digits 2 @ lit '' links. Ready to scrape.'',
              store_line (place_result ?E (js_calls ?G)) (maps_table ?E ?G),
              store_line (place_result ?E (Suc (js_calls ?G)))
                (store_place (current_keyword ?G) (current_location ?G)
                   (utcnow ?E (js_calls ?G)) (place_result ?E (js_calls ?G))
                   (maps_table ?E ?G)),
              lit ''Scraping finished.'']"
    "links_index sf = 2" "\<not> scraping sf" "scheduled sf = []"
    by blast
  have a: "run_events 8 ?E s1 = Some (Inr sf)" using r(2) by simp
  have b: "web_loads sf = [lit ''A'', lit ''B'']" using r(3) by (simp only: w append_Nil)
  have c: "maps_progress sf = [0, 50, 100]" using r(4) by (simp only: w append_Nil)
  have d: "js_calls sf = 2" using r(5) by (simp only: w add_0)
  have "map_option (map (\<lambda>r. (m_id r, m_name r, m_address r, m_keyword r)))
          (((maps_db ?G)(get_current_table ?E Maps ?G \<mapsto>
             store_place (current_keyword ?G) (current_location ?G)
               (utcnow ?E (Suc (js_calls ?G))) (place_result ?E (Suc (js_calls ?G)))
               (store_place (current_keyword ?G) (current_location ?G)
                  (utcnow ?E (js_calls ?G)) (place_result ?E (js_calls ?G))
                  (maps_table ?E ?G)))) (lit ''cafes_pune''))
        = Some [(1, lit ''Cafe A'', lit ''MG Road'', lit ''Cafes''),
                (2, lit ''Cafe B'', lit ''FC Road'', lit ''Cafes'')]"
    by code_simp
  then have e: "map_option (map (\<lambda>r. (m_id r, m_name r, m_address r, m_keyword r)))
            (maps_db sf (lit ''cafes_pune''))
          = Some [(1, lit ''Cafe A'', lit ''MG Road'', lit ''Cafes''),
                  (2, lit ''Cafe B'', lit ''FC Road'', lit ''Cafes'')]"
    by (simp only: r(6))
  have "maps_status ?G @
             [lit ''Collected '' @ digits 2 @ lit '' links. Ready to scrape.'',
              store_line (place_result ?E (js_calls ?G)) (maps_table ?E ?G),
              store_line (place_result ?E (Suc (js_calls ?G)))
                (store_place (current_keyword ?G) (current_location ?G)
                   (utcnow ?E (js_calls ?G)) (place_result ?E (js_calls ?G))
                   (maps_table ?E ?G)),
              lit ''Scraping finished.'']
        = [lit ''Collected 2 links. Ready to scrape.'', lit ''Saved: Cafe A'',
           lit ''Saved: Cafe B'', lit ''Scraping finished.'']"
    by code_simp
  then have f: "maps_status sf
          = [lit ''Collected 2 links. Ready to scrape.'', lit ''Saved: Cafe A'',
             lit ''Saved: Cafe B'', lit ''Scraping finished.'']"
    by (simp only: r(7))
  from r(1) a b c d r(8,9,10) e f
  have "\<exists>s1 sf.
         start_scrape ?E (got_links (Some [lit ''A'', lit ''B'', lit ''C'']) ?G) = Inr s1
       \<and> run_events 8 ?E s1 = Some (Inr sf)
       \<and> web_loads sf = [lit ''A'', lit ''B'']
       \<and> maps_progress sf = [0, 50, 100]
       \<and> js_calls sf = 2 \<and> links_index sf = 2 \<and> \<not> scraping sf \<and> scheduled sf = []
       \<and> map_option (map (\<lambda>r. (m_id r, m_name r, m_address r, m_keyword r)))
            (maps_db sf (lit ''cafes_pune''))
          = Some [(1, lit ''Cafe A'', lit ''MG Road'', lit ''Cafes''),
                  (2, lit ''Cafe B'', lit ''FC Road'', lit ''Cafes'')]
       \<and> maps_status sf
          = [lit ''Collected 2 links. Ready to scrape.'', lit ''Saved: Cafe A'',
             lit ''Saved: Cafe B'', lit ''Scraping finished.'']"
    apply -
    apply (rule exI [of _ s1], rule exI [of _ sf])
    apply (intro conjI)
    apply assumption+
    done
  with 1 2 3 l0 l1 show ?thesis
    apply -
    apply (intro conjI)
    apply assumption+
    done
qed

theorem load_failure_stalls_witness:
  "scheduled ((got_links (Some [lit ''A'', lit ''B'']) sample_gui)\<lparr>scraping := True\<rparr>) = []
   \<and> links_index ((got_links (Some [lit ''A'', lit ''B'']) sample_gui)\<lparr>scraping := True\<rparr>)
       < length (links ((got_links (Some [lit ''A'', lit ''B'']) sample_gui)\<lparr>scraping := True\<rparr>))
   \<and> \<not> load_ok (sample_env (\<lambda>k. False) (\<lambda>i. True) (Returns NotAList))
         (length (web_loads ((got_links (Some [lit ''A'', lit ''B'']) sample_gui)\<lparr>scraping := True\<rparr>)))
   \<and> map_option (map_sum id (\<lambda>s. (links_index s, web_loads s, js_calls s, scraping s, scheduled s)))
        (run_events 5 (sample_env (\<lambda>k. False) (\<lambda>i. True) (Returns NotAList))
           (process_next_link ((got_links (Some [lit ''A'', lit ''B'']) sample_gui)\<lparr>scraping := True\<rparr>)))
       = Some (Inr (0, [lit ''A''], 0, True, []))"
proof -
  let ?E = "sample_env (\<lambda>k. False) (\<lambda>i. True) (Returns NotAList)"
  let ?G = "(got_links (Some [lit ''A'', lit ''B'']) sample_gui)\<lparr>scraping := True\<rparr>"
  have 1: "scheduled ?G = []"
    by (simp add: got_links_def Let_def log_line_def sample_gui_def init_gui_def)
  have 2: "links_index ?G < length (links ?G)"
    by (simp add: got_links_def Let_def log_line_def sample_gui_def init_gui_def)
  have 3: "\<not> load_ok ?E (length (web_loads ?G))" by (simp add: sample_env_def)
  have f: "links_index ?G = 0" "web_loads ?G = []" "js_calls ?G = 0" "links ?G ! 0 = lit ''A''"
    by (simp_all add: got_links_def Let_def log_line_def sample_gui_def init_gui_def)
  from load_failure_stalls[OF 1 2 3, of 4]
  have "map_option (map_sum id (\<lambda>s. (links_index s, web_loads s, js_calls s, scraping s, scheduled s)))
        (run_events 5 ?E (process_next_link ?G)) = Some (Inr (0, [lit ''A''], 0, True, []))"
    using 1 f by simp
  with 1 2 3 show ?thesis by blast
qed

theorem start_scrape_no_links_witness:
  "links sample_gui = []
   \<and> start_scrape (sample_env (\<lambda>k. True) (\<lambda>i. True) (Returns NotAList)) sample_gui
       = Inr (sample_gui\<lparr>dialogs := [(''No links'', ''Collect links first.'')]\<rparr>)"
proof -
  have 1: "links sample_gui = []" by (simp add: sample_gui_def init_gui_def)
  have "dialogs sample_gui = []" by (simp add: sample_gui_def init_gui_def)
  with start_scrape_no_links[OF 1, of "sample_env (\<lambda>k. True) (\<lambda>i. True) (Returns NotAList)"] 1
  show ?thesis by simp
qed

text \<open>
  Claim C8 says that clearing the running flag while target \<open>B\<close> of \<open>[A, B, C]\<close> is being
  processed keeps \<open>C\<close> from being loaded.  It does not: after six events \<open>A\<close> is done and
  the extraction script of \<open>B\<close> is running, with \<open>A\<close> and \<open>B\<close> loaded; clearing the flag
  there and letting three more events happen loads \<open>C\<close>.
\<close>

theorem stop_flag_counterexample:
  "map_sum id web_loads
     (and_then (start_scrape (sample_env (\<lambda>k. True) (\<lambda>i. True) (Returns NotAList))
                  (got_links (Some [lit ''A'', lit ''B'', lit ''C'']) sample_gui))
        (steps 6 (sample_env (\<lambda>k. True) (\<lambda>i. True) (Returns NotAList))))
     = Inr [lit ''A'', lit ''B'']
   \<and> map_sum id web_loads
     (and_then (and_then (start_scrape (sample_env (\<lambda>k. True) (\<lambda>i. True) (Returns NotAList))
                  (got_links (Some [lit ''A'', lit ''B'', lit ''C'']) sample_gui))
        (steps 6 (sample_env (\<lambda>k. True) (\<lambda>i. True) (Returns NotAList))))
        (\<lambda>s. steps 3 (sample_env (\<lambda>k. True) (\<lambda>i. True) (Returns NotAList))
                (s\<lparr>scraping := False\<rparr>)))
     = Inr [lit ''A'', lit ''B'', lit ''C'']"
  by code_simp

theorem process_next_link_ignores_flag_witness:
  "links_index ((got_links (Some [lit ''A'', lit ''B'', lit ''C'']) sample_gui)\<lparr>links_index := 2\<rparr>)
     < length (links ((got_links (Some [lit ''A'', lit ''B'', lit ''C'']) sample_gui)\<lparr>links_index := 2\<rparr>))
   \<and> web_loads (process_next_link
        ((got_links (Some [lit ''A'', lit ''B'', lit ''C'']) sample_gui)
           \<lparr>links_index := 2, scraping := False\<rparr>)) = [lit ''C'']"
proof -
  let ?G = "(got_links (Some [lit ''A'', lit ''B'', lit ''C'']) sample_gui)\<lparr>links_index := 2\<rparr>"
  have 1: "links_index ?G < length (links ?G)"
    by (simp add: got_links_def Let_def log_line_def sample_gui_def init_gui_def)
  have f: "links ?G ! links_index ?G = lit ''C''" "web_loads ?G = []"
    by (simp_all add: got_links_def Let_def log_line_def sample_gui_def init_gui_def)
  from process_next_link_ignores_flag[OF 1, of False]
  have "web_loads (process_next_link (?G\<lparr>scraping := False\<rparr>))
        = web_loads ?G @ [links ?G ! links_index ?G]"
    by blast
  then have "web_loads (process_next_link (?G\<lparr>scraping := False\<rparr>)) = [lit ''C'']"
    by (simp only: f append_Nil)
  with 1 show ?thesis by blast
qed

section \<open>Deduplication in the stores\<close>

lemma maps_select_None:
  "maps_select_id rows n a = None \<longleftrightarrow> (n, a) \<notin> set (maps_keys rows)"
  by (auto simp: maps_select_id_def maps_keys_def find_None_iff)

lemma jd_select_None:
  "jd_select_id rows n a = None \<longleftrightarrow> (n, a) \<notin> set (jd_keys rows)"
  by (auto simp: jd_select_id_def jd_keys_def find_None_iff)

lemma got_place_store:
  assumes "got_place env ts d s = Inr s'"
  shows "get_current_table env Maps s' = get_current_table env Maps s
     \<and> (place_key d \<in> set (maps_keys (maps_table env s))
            \<and> maps_table env s' = maps_table env s
         \<or> (place_key d \<notin> set (maps_keys (maps_table env s))
            \<and> maps_keys (maps_table env s') = maps_keys (maps_table env s) @ [place_key d]))"
proof -
  let ?t = "get_current_table env Maps s"
  let ?data = "case d of None \<Rightarrow> Map.empty | Some x \<Rightarrow> x"
  from assms obtain rows where tr: "table_rows (sql_ident_ok env) (maps_db s) ?t = Inr rows"
    by (cases "table_rows (sql_ident_ok env) (maps_db s) ?t") (simp_all add: got_place_def Let_def)
  then have tb: "maps_db s ?t = Some rows"
    by (auto simp: table_rows_def split: if_splits option.splits)
  then have mt: "maps_table env s = rows" by (simp add: maps_table_def)
  from assms tr obtain p where pc: "percent (Suc (links_index s)) (length (links s)) = Inr p"
    by (cases "percent (Suc (links_index s)) (length (links s))")
       (auto simp: got_place_def Let_def log_line_def split: option.splits)
  show ?thesis
  proof (cases "maps_select_id rows (dict_get ?data ''name'' []) (dict_get ?data ''address'' [])")
    case None
    then have k: "place_key d \<notin> set (maps_keys rows)"
      by (simp add: maps_select_None place_key_def Let_def)
    from assms None have s': "s' = s\<lparr>maps_db := (maps_db s)(?t \<mapsto> rows @
                [\<lparr>m_id = next_rowid rows,
                  m_name = dict_get ?data ''name'' [],
                  m_address = dict_get ?data ''address'' [],
                  m_phone = dict_get ?data ''phone'' [],
                  m_website = dict_get ?data ''website'' [],
                  m_keyword = current_keyword s,
                  m_location = current_location s,
                  m_scraped_at = ts\<rparr>]),
              maps_status := maps_status s @ [lit ''Saved: '' @ dict_get ?data ''name'' []],
              links_index := Suc (links_index s),
              maps_progress := maps_progress s @ [p],
              scheduled := scheduled s @ [SingleShot 800 ProcessNextLink]\<rparr>"
      by (simp add: got_place_def Let_def tr pc log_line_def)
    have t': "get_current_table env Maps s' = ?t" by (simp add: s' get_current_table_def)
    have "maps_keys (maps_table env s') = maps_keys rows @ [place_key d]"
      unfolding maps_table_def t' by (simp add: s' maps_keys_def place_key_def Let_def)
    then show ?thesis using k t' mt by simp
  next
    case (Some i)
    from assms Some have s': "s' = s\<lparr>
              maps_status := maps_status s @ [lit ''Skipped duplicate: '' @ dict_get ?data ''name'' []],
              links_index := Suc (links_index s),
              maps_progress := maps_progress s @ [p],
              scheduled := scheduled s @ [SingleShot 800 ProcessNextLink]\<rparr>"
      by (simp add: got_place_def Let_def tr pc log_line_def)
    have t': "get_current_table env Maps s' = ?t" by (simp add: s' get_current_table_def)
    have "maps_table env s' = maps_table env s"
      unfolding maps_table_def t' by (simp add: s')
    moreover have "place_key d \<in> set (maps_keys rows)"
      using Some maps_select_None[of rows "dict_get ?data ''name'' []" "dict_get ?data ''address'' []"]
      by (simp add: place_key_def Let_def)
    ultimately show ?thesis using t' mt by simp
  qed
qed

lemma got_place_distinct:
  assumes "got_place env ts d s = Inr s'" "distinct (maps_keys (maps_table env s))"
  shows "distinct (maps_keys (maps_table env s'))"
  using got_place_store[OF assms(1)] assms(2) by auto

lemma got_place_seq_distinct:
  assumes "seq (\<lambda>(ts, d). got_place env ts d) xs s = Inr s'" "distinct (maps_keys (maps_table env s))"
  shows "distinct (maps_keys (maps_table env s'))"
  using assms
proof (induction xs arbitrary: s)
  case Nil
  then show ?case by simp
next
  case (Cons x xs)
  obtain ts d where x: "x = (ts, d)" by (cases x)
  from Cons.prems(1) obtain s1 where s1: "got_place env ts d s = Inr s1"
    "seq (\<lambda>(ts, d). got_place env ts d) xs s1 = Inr s'"
    by (cases "got_place env ts d s") (simp_all add: x)
  from got_place_distinct[OF s1(1) Cons.prems(2)] Cons.IH[OF s1(2)] show ?case by blast
qed

lemma got_place_skip:
  assumes k: "place_key d \<in> set (maps_keys (maps_table env s))"
    and ok: "sql_ident_ok env (get_current_table env Maps s)"
    and ne: "links s \<noteq> []"
  shows "\<exists>s'. got_place env ts d s = Inr s' \<and> maps_db s' = maps_db s
          \<and> maps_status s' = maps_status s @ [lit ''Skipped duplicate: '' @ fst (place_key d)]"
proof -
  let ?t = "get_current_table env Maps s"
  let ?data = "case d of None \<Rightarrow> Map.empty | Some x \<Rightarrow> x"
  from k obtain rows where tb: "maps_db s ?t = Some rows"
    by (cases "maps_db s ?t") (auto simp: maps_table_def maps_keys_def)
  then have mt: "maps_table env s = rows" by (simp add: maps_table_def)
  have tr: "table_rows (sql_ident_ok env) (maps_db s) ?t = Inr rows"
    using ok tb by (simp add: table_rows_def)
  have pc: "percent (Suc (links_index s)) (length (links s))
            = Inr (percent_value (Suc (links_index s)) (length (links s)))"
    using ne by (simp add: percent_Inr)
  from k mt obtain i where
    "maps_select_id rows (dict_get ?data ''name'' []) (dict_get ?data ''address'' []) = Some i"
    using maps_select_None[of rows "dict_get ?data ''name'' []" "dict_get ?data ''address'' []"]
    by (cases "maps_select_id rows (dict_get ?data ''name'' []) (dict_get ?data ''address'' [])")
       (auto simp: place_key_def Let_def)
  then show ?thesis
    by (simp add: got_place_def Let_def tr pc log_line_def place_key_def)
qed


lemma save_justdial_store:
  assumes "save_justdial_data env d s = Inr s'"
  shows "get_current_table env JustDial s' = get_current_table env JustDial s
     \<and> (justdial_table env s' = justdial_table env s
         \<or> (record_key d \<notin> set (jd_keys (justdial_table env s))
            \<and> (\<exists>r. justdial_table env s' = justdial_table env s @ [r]
                   \<and> j_name r = dict_get d ''name'' []
                   \<and> j_address r = dict_get d ''address'' [])))"
proof -
  let ?t = "get_current_table env JustDial s"
  from assms obtain rows where tr: "table_rows (sql_ident_ok env) (justdial_db s) ?t = Inr rows"
    by (cases "table_rows (sql_ident_ok env) (justdial_db s) ?t")
       (simp_all add: save_justdial_data_def Let_def)
  then have tb: "justdial_db s ?t = Some rows"
    by (auto simp: table_rows_def split: if_splits option.splits)
  then have mt: "justdial_table env s = rows" by (simp add: justdial_table_def)
  show ?thesis
  proof (cases "jd_select_id rows (dict_get d ''name'' []) (dict_get d ''address'' [])")
    case None
    then have k: "record_key d \<notin> set (jd_keys rows)"
      by (simp add: jd_select_None record_key_def)
    let ?r = "\<lparr>j_id = d ''id'',
               j_name = dict_get d ''name'' [],
               j_address = dict_get d ''address'' [],
               j_phone = dict_get d ''phone'' [],
               j_website = dict_get d ''website'' [],
               j_website_status = dict_get d ''website_status'' (lit ''Unknown''),
               j_keyword = justdial_keyword s,
               j_location = justdial_location s,
               j_scraped_at = dict_get d ''scraped_at'' [],
               j_rating = dict_get d ''rating'' (lit ''N/A''),
               j_votes = dict_get d ''votes'' (lit ''N/A'')\<rparr>"
    from assms None have ins: "jd_insert rows ?r = Inr (rows @ [?r])"
      by (cases "jd_insert rows ?r")
         (auto simp: save_justdial_data_def Let_def tr jd_insert_def split: if_splits)
    from assms None have s': "s' = log_line (lit ''Saved: '' @ dict_get d ''name'' []) JustDial
                                (s\<lparr>justdial_db := (justdial_db s)(?t \<mapsto> rows @ [?r])\<rparr>)"
      by (simp add: save_justdial_data_def Let_def tr ins)
    have t': "get_current_table env JustDial s' = ?t"
      by (simp add: s' get_current_table_def log_line_def)
    have "justdial_table env s' = rows @ [?r]"
      unfolding justdial_table_def t' by (simp add: s' log_line_def)
    then show ?thesis using k t' mt by simp
  next
    case (Some i)
    from assms Some have s': "s' = log_line (lit ''Skipped duplicate: '' @ dict_get d ''name'' []) JustDial s"
      by (simp add: save_justdial_data_def Let_def tr)
    have t': "get_current_table env JustDial s' = ?t"
      by (simp add: s' get_current_table_def log_line_def)
    have "justdial_table env s' = justdial_table env s"
      unfolding justdial_table_def t' by (simp add: s' log_line_def)
    then show ?thesis using t' by simp
  qed
qed

lemma save_justdial_distinct:
  assumes "save_justdial_data env d s = Inr s'" "distinct (jd_keys (justdial_table env s))"
  shows "distinct (jd_keys (justdial_table env s'))"
  using save_justdial_store[OF assms(1)] assms(2)
  by (auto simp: jd_keys_def record_key_def)

lemma save_justdial_seq_distinct:
  assumes "seq (save_justdial_data env) ds s = Inr s'" "distinct (jd_keys (justdial_table env s))"
  shows "distinct (jd_keys (justdial_table env s'))"
  using assms
proof (induction ds arbitrary: s)
  case Nil
  then show ?case by simp
next
  case (Cons d ds)
  from Cons.prems(1) obtain s1 where s1: "save_justdial_data env d s = Inr s1"
    "seq (save_justdial_data env) ds s1 = Inr s'"
    by (cases "save_justdial_data env d s") simp_all
  from save_justdial_distinct[OF s1(1) Cons.prems(2)] Cons.IH[OF s1(2)] show ?case by blast
qed

lemma save_justdial_skip:
  assumes k: "record_key d \<in> set (jd_keys (justdial_table env s))"
    and ok: "sql_ident_ok env (get_current_table env JustDial s)"
  shows "save_justdial_data env d s
         = Inr (log_line (lit ''Skipped duplicate: '' @ fst (record_key d)) JustDial s)"
proof -
  let ?t = "get_current_table env JustDial s"
  from k obtain rows where tb: "justdial_db s ?t = Some rows"
    by (cases "justdial_db s ?t") (auto simp: justdial_table_def jd_keys_def)
  then have mt: "justdial_table env s = rows" by (simp add: justdial_table_def)
  have tr: "table_rows (sql_ident_ok env) (justdial_db s) ?t = Inr rows"
    using ok tb by (simp add: table_rows_def)
  from k mt obtain i where
    "jd_select_id rows (dict_get d ''name'' []) (dict_get d ''address'' []) = Some i"
    using jd_select_None[of rows "dict_get d ''name'' []" "dict_get d ''address'' []"]
    by (cases "jd_select_id rows (dict_get d ''name'' []) (dict_get d ''address'' [])")
       (auto simp: record_key_def)
  then show ?thesis
    by (simp add: save_justdial_data_def Let_def tr record_key_def)
qed

lemma maps_table_cong:
  "maps_db s' = maps_db s \<Longrightarrow> current_keyword s' = current_keyword s
   \<Longrightarrow> current_location s' = current_location s \<Longrightarrow> maps_table env s' = maps_table env s"
  by (simp add: maps_table_def get_current_table_def)

lemma justdial_table_cong:
  "justdial_db s' = justdial_db s \<Longrightarrow> justdial_keyword s' = justdial_keyword s
   \<Longrightarrow> justdial_location s' = justdial_location s
   \<Longrightarrow> justdial_table env s' = justdial_table env s"
  by (simp add: justdial_table_def get_current_table_def)

lemma step_distinct:
  assumes "step env s = Inr s'" "distinct (maps_keys (maps_table env s))"
  shows "distinct (maps_keys (maps_table env s'))"
proof (cases "scheduled s")
  case Nil
  then show ?thesis using assms by (simp add: step_def)
next
  case (Cons p ps)
  let ?s0 = "s\<lparr>scheduled := ps\<rparr>"
  have c: "complete env p ?s0 = Inr s'" using assms(1) Cons by (simp add: step_def)
  have t0: "maps_table env ?s0 = maps_table env s" by (rule maps_table_cong) simp_all
  have d0: "distinct (maps_keys (maps_table env ?s0))" using assms(2) by (simp only: t0)
  have gp: "distinct (maps_keys (maps_table env s'))"
    if "got_place env ts d ?s0 = Inr s'" for ts d
    using got_place_distinct[OF that d0] .
  have other: "distinct (maps_keys (maps_table env s'))"
    if "maps_db s' = maps_db ?s0" "current_keyword s' = current_keyword ?s0"
       "current_location s' = current_location ?s0"
    using maps_table_cong[OF that, of env] d0 by simp
  have inv: "distinct (maps_keys (maps_table env s'))" if "invoke env cb ?s0 = Inr s'" for cb
  proof (cases cb)
    case ExtractPlace
    with that have "s' = extract_place ?s0" by (simp add: invoke_def)
    then show ?thesis by (intro other) (simp_all add: extract_place_def)
  next
    case ProcessNextLink
    with that have "s' = process_next_link ?s0" by (simp add: invoke_def)
    then show ?thesis
      by (intro other)
         (simp_all add: process_next_link_def Let_def refresh_keyword_tables_def log_line_def)
  next
    case GotPlace
    with that show ?thesis by (auto simp: invoke_def intro: gp)
  qed
  show ?thesis
  proof (cases p)
    case (PageLoad u)
    with c have "s' = on_load_finished (load_ok env (length (web_loads ?s0) - 1)) ?s0"
      by (simp add: complete_def)
    then show ?thesis
      by (intro other) (simp_all add: on_load_finished_def split: option.splits)
  next
    case (SingleShot ms cb)
    with c show ?thesis by (auto simp: complete_def intro: inv)
  next
    case (RunJavaScript cb)
    with c show ?thesis by (auto simp: complete_def intro: inv)
  qed
qed

lemma steps_distinct:
  assumes "steps n env s = Inr s'" "distinct (maps_keys (maps_table env s))"
  shows "distinct (maps_keys (maps_table env s'))"
  using assms
proof (induction n arbitrary: s)
  case 0
  then show ?case by simp
next
  case (Suc n)
  from Suc.prems(1) obtain s1 where s1: "step env s = Inr s1" "steps n env s1 = Inr s'"
    by (cases "step env s") simp_all
  from step_distinct[OF s1(1) Suc.prems(2)] Suc.IH[OF s1(2)] show ?case by blast
qed

lemma slot_distinct:
  assumes "slot env sig s = Inr s'" "distinct (jd_keys (justdial_table env s))"
  shows "distinct (jd_keys (justdial_table env s'))"
proof (cases sig)
  case (Data d)
  with assms(1) have "save_justdial_data env d s = Inr s'" by (simp add: slot_def)
  from save_justdial_distinct[OF this assms(2)] show ?thesis .
next
  case (Status m)
  with assms(1) have "s' = log_line m JustDial s" by (simp add: slot_def)
  then have "justdial_table env s' = justdial_table env s"
    by (intro justdial_table_cong) (simp_all add: log_line_def)
  then show ?thesis using assms(2) by simp
next
  case (Progress p)
  with assms(1) have "s' = s\<lparr>justdial_progress := justdial_progress s @ [p]\<rparr>"
    by (simp add: slot_def)
  then have "justdial_table env s' = justdial_table env s"
    by (intro justdial_table_cong) simp_all
  then show ?thesis using assms(2) by simp
next
  case Finished
  with assms(1) have "s' = justdial_scraping_finished s" by (simp add: slot_def)
  then have "justdial_table env s' = justdial_table env s"
    by (intro justdial_table_cong)
       (simp_all add: justdial_scraping_finished_def refresh_keyword_tables_def)
  then show ?thesis using assms(2) by simp
qed

lemma slots_distinct:
  assumes "seq (slot env) sigs s = Inr s'" "distinct (jd_keys (justdial_table env s))"
  shows "distinct (jd_keys (justdial_table env s'))"
  using assms
proof (induction sigs arbitrary: s)
  case Nil
  then show ?case by simp
next
  case (Cons sig sigs)
  from Cons.prems(1) obtain s1 where s1: "slot env sig s = Inr s1" "seq (slot env) sigs s1 = Inr s'"
    by (cases "slot env sig s") simp_all
  from slot_distinct[OF s1(1) Cons.prems(2)] Cons.IH[OF s1(2)] show ?case by blast
qed

text \<open>
  Claim C1.  Within the table of the current query, no sequence of saves produces two
  rows with the same \<open>(name, address)\<close>: if the keys of the table are distinct (as they
  are in the empty table \<open>ensure_table\<close> creates) they are distinct after any sequence of
  \<open>_got_place\<close> calls (Maps) and after any sequence of \<open>save_justdial_data\<close> calls
  (JustDial); the same holds over any number of events of the Maps event loop and over
  any sequence of signals delivered to the JustDial slots.  Saving a record whose key is
  already in the table (the table name being one
  SQLite accepts, and for \<open>_got_place\<close> the link list not empty) returns normally, leaves
  the database as it was and logs "Skipped duplicate: name" rather than "Saved: name".
\<close>

theorem store_dedup:
  "(distinct (maps_keys (maps_table env s))
      \<and> seq (\<lambda>(ts, d). got_place env ts d) xs s = Inr s'
    \<longrightarrow> distinct (maps_keys (maps_table env s')))
   \<and> (distinct (jd_keys (justdial_table env s))
      \<and> seq (save_justdial_data env) ds s = Inr s'
    \<longrightarrow> distinct (jd_keys (justdial_table env s')))
   \<and> (place_key result \<in> set (maps_keys (maps_table env s))
      \<and> sql_ident_ok env (get_current_table env Maps s) \<and> links s \<noteq> []
    \<longrightarrow> (\<exists>s1. got_place env ts result s = Inr s1 \<and> maps_db s1 = maps_db s
            \<and> maps_status s1
                = maps_status s @ [lit ''Skipped duplicate: '' @ fst (place_key result)]))
   \<and> (record_key data \<in> set (jd_keys (justdial_table env s))
      \<and> sql_ident_ok env (get_current_table env JustDial s)
    \<longrightarrow> save_justdial_data env data s
          = Inr (s\<lparr>justdial_status := justdial_status s
                     @ [lit ''Skipped duplicate: '' @ fst (record_key data)]\<rparr>))
   \<and> (distinct (maps_keys (maps_table env s)) \<and> steps n env s = Inr s'
    \<longrightarrow> distinct (maps_keys (maps_table env s')))
   \<and> (distinct (jd_keys (justdial_table env s)) \<and> seq (slot env) sigs s = Inr s'
    \<longrightarrow> distinct (jd_keys (justdial_table env s')))"
proof (intro conjI impI)
  assume "distinct (maps_keys (maps_table env s))
      \<and> seq (\<lambda>(ts, d). got_place env ts d) xs s = Inr s'"
  then show "distinct (maps_keys (maps_table env s'))"
    using got_place_seq_distinct by blast
next
  assume "distinct (jd_keys (justdial_table env s))
      \<and> seq (save_justdial_data env) ds s = Inr s'"
  then show "distinct (jd_keys (justdial_table env s'))"
    using save_justdial_seq_distinct by blast
next
  assume "place_key result \<in> set (maps_keys (maps_table env s))
      \<and> sql_ident_ok env (get_current_table env Maps s) \<and> links s \<noteq> []"
  then show "\<exists>s1. got_place env ts result s = Inr s1 \<and> maps_db s1 = maps_db s
            \<and> maps_status s1
                = maps_status s @ [lit ''Skipped duplicate: '' @ fst (place_key result)]"
    using got_place_skip by blast
next
  assume "record_key data \<in> set (jd_keys (justdial_table env s))
      \<and> sql_ident_ok env (get_current_table env JustDial s)"
  then show "save_justdial_data env data s
          = Inr (s\<lparr>justdial_status := justdial_status s
                     @ [lit ''Skipped duplicate: '' @ fst (record_key data)]\<rparr>)"
    using save_justdial_skip[of data env s] by (simp add: log_line_def)
next
  assume "distinct (maps_keys (maps_table env s)) \<and> steps n env s = Inr s'"
  then show "distinct (maps_keys (maps_table env s'))"
    using steps_distinct by blast
next
  assume "distinct (jd_keys (justdial_table env s)) \<and> seq (slot env) sigs s = Inr s'"
  then show "distinct (jd_keys (justdial_table env s'))"
    using slots_distinct by blast
qed

theorem store_dedup_witness:
  "distinct (maps_keys (maps_table (sample_env (\<lambda>k. True) (\<lambda>i. True) (Returns NotAList))
                          sample_store_gui))
   \<and> (\<exists>s'. seq (\<lambda>(ts, d). got_place (sample_env (\<lambda>k. True) (\<lambda>i. True) (Returns NotAList)) ts d)
              [(lit ''t1'', Some (sample_record ''Joes Cafe'' ''MG Road'')),
               (lit ''t2'', Some (sample_record ''Joes Cafe'' ''MG Road''))] sample_store_gui
            = Inr s'
          \<and> maps_keys (maps_table (sample_env (\<lambda>k. True) (\<lambda>i. True) (Returns NotAList)) s')
             = [(lit ''Joes Cafe'', lit ''MG Road'')]
          \<and> distinct (maps_keys (maps_table (sample_env (\<lambda>k. True) (\<lambda>i. True) (Returns NotAList)) s')))
   \<and> distinct (jd_keys (justdial_table (sample_env (\<lambda>k. True) (\<lambda>i. True) (Returns NotAList))
                          sample_store_gui))
   \<and> (\<exists>s'. seq (save_justdial_data (sample_env (\<lambda>k. True) (\<lambda>i. True) (Returns NotAList)))
              [(sample_record ''Joes Cafe'' ''MG Road'')(''id'' \<mapsto> lit ''u1''),
               (sample_record ''Joes Cafe'' ''MG Road'')(''id'' \<mapsto> lit ''u2'')] sample_store_gui
            = Inr s'
          \<and> jd_keys (justdial_table (sample_env (\<lambda>k. True) (\<lambda>i. True) (Returns NotAList)) s')
             = [(lit ''Joes Cafe'', lit ''MG Road'')]
          \<and> distinct (jd_keys (justdial_table (sample_env (\<lambda>k. True) (\<lambda>i. True) (Returns NotAList)) s')))
   \<and> (\<exists>s1 s2. got_place (sample_env (\<lambda>k. True) (\<lambda>i. True) (Returns NotAList)) (lit ''t1'')
                 (Some (sample_record ''Joes Cafe'' ''MG Road'')) sample_store_gui = Inr s1
          \<and> got_place (sample_env (\<lambda>k. True) (\<lambda>i. True) (Returns NotAList)) (lit ''t2'')
                 (Some (sample_record ''Joes Cafe'' ''MG Road'')) s1 = Inr s2
          \<and> maps_db s2 = maps_db s1
          \<and> maps_status s2 = maps_status s1 @ [lit ''Skipped duplicate: Joes Cafe''])
   \<and> (\<exists>s1. save_justdial_data (sample_env (\<lambda>k. True) (\<lambda>i. True) (Returns NotAList))
              ((sample_record ''Joes Cafe'' ''MG Road'')(''id'' \<mapsto> lit ''u1'')) sample_store_gui
            = Inr s1
          \<and> save_justdial_data (sample_env (\<lambda>k. True) (\<lambda>i. True) (Returns NotAList))
              ((sample_record ''Joes Cafe'' ''MG Road'')(''id'' \<mapsto> lit ''u2'')) s1
            = Inr (s1\<lparr>justdial_status := justdial_status s1
                         @ [lit ''Skipped duplicate: Joes Cafe'']\<rparr>))"
proof -
  let ?E = "sample_env (\<lambda>k. True) (\<lambda>i. True) (Returns NotAList)"
  let ?G = "sample_store_gui"
  let ?joe = "Some (sample_record ''Joes Cafe'' ''MG Road'')"
  let ?j1 = "(sample_record ''Joes Cafe'' ''MG Road'')(''id'' \<mapsto> lit ''u1'')"
  let ?j2 = "(sample_record ''Joes Cafe'' ''MG Road'')(''id'' \<mapsto> lit ''u2'')"
  let ?xs = "[(lit ''t1'', ?joe), (lit ''t2'', ?joe)]"
  let ?ds = "[?j1, ?j2]"
  have km: "maps_keys (maps_table ?E ?G) = []" by code_simp
  have kj: "jd_keys (justdial_table ?E ?G) = []" by code_simp
  have dm: "distinct (maps_keys (maps_table ?E ?G))" by (simp only: km distinct.simps)
  have dj: "distinct (jd_keys (justdial_table ?E ?G))" by (simp only: kj distinct.simps)
  have "map_sum id (\<lambda>s. maps_keys (maps_table ?E s)) (seq (\<lambda>(ts, d). got_place ?E ts d) ?xs ?G)
        = Inr [(lit ''Joes Cafe'', lit ''MG Road'')]"
    by code_simp
  then obtain sm where sm: "seq (\<lambda>(ts, d). got_place ?E ts d) ?xs ?G = Inr sm"
      "maps_keys (maps_table ?E sm) = [(lit ''Joes Cafe'', lit ''MG Road'')]"
    by (cases "seq (\<lambda>(ts, d). got_place ?E ts d) ?xs ?G") auto
  have 1: "distinct (maps_keys (maps_table ?E sm))"
    using store_dedup[of ?E ?G ?xs sm] dm sm(1) by blast
  have "map_sum id (\<lambda>s. jd_keys (justdial_table ?E s)) (seq (save_justdial_data ?E) ?ds ?G)
        = Inr [(lit ''Joes Cafe'', lit ''MG Road'')]"
    by code_simp
  then obtain sj where sj: "seq (save_justdial_data ?E) ?ds ?G = Inr sj"
      "jd_keys (justdial_table ?E sj) = [(lit ''Joes Cafe'', lit ''MG Road'')]"
    by (cases "seq (save_justdial_data ?E) ?ds ?G") auto
  have 2: "distinct (jd_keys (justdial_table ?E sj))"
    using store_dedup[of ?E ?G _ sj ?ds] dj sj(1) by blast
  have "map_sum id (\<lambda>s. (maps_keys (maps_table ?E s), links s, get_current_table ?E Maps s))
          (got_place ?E (lit ''t1'') ?joe ?G)
        = Inr ([(lit ''Joes Cafe'', lit ''MG Road'')], [lit ''A''], lit ''cafes_pune'')"
    by code_simp
  then obtain m1 where m1: "got_place ?E (lit ''t1'') ?joe ?G = Inr m1"
      "maps_keys (maps_table ?E m1) = [(lit ''Joes Cafe'', lit ''MG Road'')]"
      "links m1 = [lit ''A'']"
    by (cases "got_place ?E (lit ''t1'') ?joe ?G") auto
  have pk: "place_key ?joe = (lit ''Joes Cafe'', lit ''MG Road'')" by code_simp
  have rk: "record_key ?j2 = (lit ''Joes Cafe'', lit ''MG Road'')" by code_simp
  have sk: "lit ''Skipped duplicate: '' @ lit ''Joes Cafe'' = lit ''Skipped duplicate: Joes Cafe''"
    by (simp add: lit_def)
  have okE: "\<And>t. sql_ident_ok ?E t" by (simp add: sample_env_def)
  have "place_key ?joe \<in> set (maps_keys (maps_table ?E m1))
        \<and> sql_ident_ok ?E (get_current_table ?E Maps m1) \<and> links m1 \<noteq> []"
    by (simp add: pk m1 okE)
  with store_dedup[of ?E m1 _ _ _ ?joe "lit ''t2''"]
  obtain m2 where m2: "got_place ?E (lit ''t2'') ?joe m1 = Inr m2" "maps_db m2 = maps_db m1"
      "maps_status m2 = maps_status m1 @ [lit ''Skipped duplicate: '' @ fst (place_key ?joe)]"
    by blast
  have 3: "maps_status m2 = maps_status m1 @ [lit ''Skipped duplicate: Joes Cafe'']"
    using m2(3) by (simp only: pk fst_conv sk)
  have "map_sum id (\<lambda>s. jd_keys (justdial_table ?E s)) (save_justdial_data ?E ?j1 ?G)
        = Inr [(lit ''Joes Cafe'', lit ''MG Road'')]"
    by code_simp
  then obtain j1 where j1: "save_justdial_data ?E ?j1 ?G = Inr j1"
      "jd_keys (justdial_table ?E j1) = [(lit ''Joes Cafe'', lit ''MG Road'')]"
    by (cases "save_justdial_data ?E ?j1 ?G") auto
  have "record_key ?j2 \<in> set (jd_keys (justdial_table ?E j1))
        \<and> sql_ident_ok ?E (get_current_table ?E JustDial j1)"
    by (simp add: rk j1 okE)
  with store_dedup[of ?E j1 _ _ _ _ _ ?j2]
  have "save_justdial_data ?E ?j2 j1
        = Inr (j1\<lparr>justdial_status := justdial_status j1
                    @ [lit ''Skipped duplicate: '' @ fst (record_key ?j2)]\<rparr>)"
    by blast
  then have 4: "save_justdial_data ?E ?j2 j1
        = Inr (j1\<lparr>justdial_status := justdial_status j1 @ [lit ''Skipped duplicate: Joes Cafe'']\<rparr>)"
    by (simp only: rk fst_conv sk)
  from dm sm 1 dj sj 2 m1(1) m2(1,2) 3 j1(1) 4 show ?thesis by blast
qed

section \<open>Records without a name\<close>

lemma extractListingData_named:
  assumes "extractListingData l = Some d"
  shows "\<exists>n. d ''name'' = Some n \<and> has_name n"
  using assms by (auto simp: extractListingData_def Let_def has_name_def split: if_splits)

lemma extract_listings_named:
  "list_all (\<lambda>d. \<exists>n. d ''name'' = Some n \<and> has_name n) (extract_listings seen ls)"
proof (induction ls arbitrary: seen)
  case Nil
  then show ?case by simp
next
  case (Cons l ls)
  show ?case
  proof (cases "extractListingData l")
    case None
    then show ?thesis using Cons.IH by simp
  next
    case (Some d)
    from extractListingData_named[OF Some] Cons.IH show ?thesis by (auto simp: Some)
  qed
qed

lemma data_with_meta_name:
  assumes "d ''name'' = Some n"
  shows "dict_get (data_with_meta env i d) ''name'' [] = n"
  using assms by (simp add: data_with_meta_def dict_get_def)

lemma named_signal_simps [simp]:
  "named_signal (Status m)" "named_signal (Progress p)" "named_signal Finished"
  "named_signal (Data d) = has_name (dict_get d ''name'' [])"
  by (simp_all add: named_signal_def)

lemma process_loop_named:
  assumes "list_all (\<lambda>d. \<exists>n. d ''name'' = Some n \<and> has_name n) rest"
  shows "list_all named_signal (fst (process_loop env c n i rest))"
  using assms
proof (induction rest arbitrary: i)
  case Nil
  then show ?case by (simp add: process_loop.simps)
next
  case (Cons d rest)
  then obtain nm where nm: "d ''name'' = Some nm" "has_name nm" by auto
  have d: "named_signal (Data (data_with_meta env i d))"
    using nm by (simp add: data_with_meta_name)
  have ih: "list_all named_signal (fst (process_loop env c n (Suc i) rest))"
    using Cons by simp
  show ?case using d ih
    by (auto simp: process_loop.simps split: sum.splits prod.splits)
qed

lemma run_named:
  assumes "run_javascript env = Returns (ResultList (extract_listings seen ls))"
  shows "list_all named_signal (fst (run env c))"
proof -
  let ?r = "extract_listings seen ls"
  have "list_all named_signal (fst (process_loop env c (length ?r) 0 ?r))"
    using extract_listings_named by (rule process_loop_named)
  then show ?thesis using assms
    by (auto simp: run_def process_results_def Let_def split: prod.splits option.splits)
qed

lemma slot_table:
  assumes "slot env sig s = Inr s'" "named_signal sig"
  shows "get_current_table env JustDial s' = get_current_table env JustDial s
     \<and> (justdial_table env s' = justdial_table env s
        \<or> (\<exists>r. justdial_table env s' = justdial_table env s @ [r] \<and> has_name (j_name r)))"
proof (cases sig)
  case (Data d)
  then have sv: "save_justdial_data env d s = Inr s'" using assms(1) by (simp add: slot_def)
  have "has_name (dict_get d ''name'' [])" using assms(2) Data by simp
  with save_justdial_store[OF sv] show ?thesis by auto
qed (use assms(1) in \<open>auto simp: slot_def log_line_def justdial_scraping_finished_def
      refresh_keyword_tables_def get_current_table_def justdial_table_def\<close>)

lemma slots_keep_named:
  assumes "seq (slot env) sigs s = Inr s'" "list_all named_signal sigs"
    and "list_all (\<lambda>r. r \<in> T \<or> has_name (j_name r)) (justdial_table env s)"
  shows "list_all (\<lambda>r. r \<in> T \<or> has_name (j_name r)) (justdial_table env s')"
  using assms
proof (induction sigs arbitrary: s)
  case Nil
  then show ?case by simp
next
  case (Cons sig sigs)
  from Cons.prems(1) obtain s1 where s1: "slot env sig s = Inr s1" "seq (slot env) sigs s1 = Inr s'"
    by (cases "slot env sig s") simp_all
  have "named_signal sig" "list_all named_signal sigs" using Cons.prems(2) by simp_all
  from slot_table[OF s1(1) this(1)] Cons.prems(3)
  have "list_all (\<lambda>r. r \<in> T \<or> has_name (j_name r)) (justdial_table env s1)" by auto
  from Cons.IH[OF s1(2) \<open>list_all named_signal sigs\<close> this] show ?case .
qed


text \<open>
  Claim C5 says that a record with an empty or \<open>"N/A"\<close> name is never persisted, in either
  mode.  In Sequential Mode it is: with one collected link whose page yields an empty
  name and address, the first cycle (three events after \<open>start_scrape\<close>) leaves a row
  with the empty name in the table.
\<close>

theorem nameless_place_counterexample:
  "map_sum id (\<lambda>s. map m_name (maps_table
        ((sample_env (\<lambda>k. True) (\<lambda>i. True) (Returns NotAList))
           \<lparr>place_result := \<lambda>k. Some (sample_record [] [])\<rparr>) s))
     (and_then
        (start_scrape ((sample_env (\<lambda>k. True) (\<lambda>i. True) (Returns NotAList))
                         \<lparr>place_result := \<lambda>k. Some (sample_record [] [])\<rparr>)
           (got_links (Some [lit ''A'']) sample_gui))
        (steps 3 ((sample_env (\<lambda>k. True) (\<lambda>i. True) (Returns NotAList))
                    \<lparr>place_result := \<lambda>k. Some (sample_record [] [])\<rparr>)))
   = Inr [[]]"
  by code_simp

text \<open>
  Claim C5, amended.  The discard rule belongs to the JustDial extraction script: it
  returns no record whose name is empty or \<open>"N/A"\<close>, so in Snapshot Mode, when the batch
  is what the script returned, every row in the table after the run either was there
  before or has a name.  For five listings named A, B, N/A, D, E (cap 30, empty table,
  no cancellation) exactly the four rows A, B, D, E are persisted.  Sequential Mode has
  no such rule: an extraction result that is empty is stored by \<open>_got_place\<close> as a row
  with empty name and address, unless such a row is there already.
\<close>

theorem snapshot_discards_nameless:
  "list_all (\<lambda>d. has_name (dict_get d ''name'' [])) (extract_listings {} listings)
   \<and> (run_javascript env = Returns (ResultList (extract_listings {} listings))
        \<and> seq (slot env) (fst (run env c)) s = Inr s'
      \<longrightarrow> list_all (\<lambda>r. r \<in> set (justdial_table env s) \<or> has_name (j_name r))
            (justdial_table env s'))
   \<and> map_sum id
        (\<lambda>s. map j_name
           (justdial_table
              (sample_env (\<lambda>k. True) (\<lambda>i. True)
                 (Returns (ResultList (extract_listings {}
                    (map sample_listing [''A'', ''B'', ''N/A'', ''D'', ''E''])))))
              s))
        (seq (slot (sample_env (\<lambda>k. True) (\<lambda>i. True)
                 (Returns (ResultList (extract_listings {}
                    (map sample_listing [''A'', ''B'', ''N/A'', ''D'', ''E'']))))))
           (fst (run (sample_env (\<lambda>k. True) (\<lambda>i. True)
                 (Returns (ResultList (extract_listings {}
                    (map sample_listing [''A'', ''B'', ''N/A'', ''D'', ''E''])))))
               30))
           sample_store_gui)
       = Inr [lit ''A'', lit ''B'', lit ''D'', lit ''E'']
   \<and> (([], []) \<notin> set (maps_keys (maps_table env s))
        \<and> got_place env ts None s = Inr s1
      \<longrightarrow> maps_keys (maps_table env s1) = maps_keys (maps_table env s) @ [([], [])])"
proof -
  have 1: "list_all (\<lambda>d. has_name (dict_get d ''name'' [])) (extract_listings {} listings)"
    using extract_listings_named[of "{}" listings]
    by (auto simp: list_all_iff dict_get_def)
  have 2: "list_all (\<lambda>r. r \<in> set (justdial_table env s) \<or> has_name (j_name r))
            (justdial_table env s')"
    if "run_javascript env = Returns (ResultList (extract_listings {} listings))
        \<and> seq (slot env) (fst (run env c)) s = Inr s'"
  proof -
    have n: "list_all named_signal (fst (run env c))" using that by (intro run_named) blast
    have i: "list_all (\<lambda>r. r \<in> set (justdial_table env s) \<or> has_name (j_name r))
               (justdial_table env s)"
      by (simp add: list_all_iff)
    from that slots_keep_named[OF _ n i] show ?thesis by blast
  qed
  have 3: "map_sum id
        (\<lambda>s. map j_name
           (justdial_table
              (sample_env (\<lambda>k. True) (\<lambda>i. True)
                 (Returns (ResultList (extract_listings {}
                    (map sample_listing [''A'', ''B'', ''N/A'', ''D'', ''E''])))))
              s))
        (seq (slot (sample_env (\<lambda>k. True) (\<lambda>i. True)
                 (Returns (ResultList (extract_listings {}
                    (map sample_listing [''A'', ''B'', ''N/A'', ''D'', ''E'']))))))
           (fst (run (sample_env (\<lambda>k. True) (\<lambda>i. True)
                 (Returns (ResultList (extract_listings {}
                    (map sample_listing [''A'', ''B'', ''N/A'', ''D'', ''E''])))))
               30))
           sample_store_gui)
       = Inr [lit ''A'', lit ''B'', lit ''D'', lit ''E'']"
    by code_simp
  have 4: "maps_keys (maps_table env s1) = maps_keys (maps_table env s) @ [([], [])]"
    if "([], []) \<notin> set (maps_keys (maps_table env s)) \<and> got_place env ts None s = Inr s1"
  proof -
    have pk: "place_key None = ([], [])" by (simp add: place_key_def dict_get_def)
    from that have gp: "got_place env ts None s = Inr s1" by blast
    from got_place_store[OF gp] that show ?thesis
      unfolding pk by (auto simp: maps_keys_def)
  qed
  from 1 2 3 4 show ?thesis by blast
qed


theorem snapshot_discards_nameless_witness:
  "run_javascript (sample_env (\<lambda>k. True) (\<lambda>i. True)
       (Returns (ResultList (extract_listings {}
          (map sample_listing [''A'', ''B'', ''N/A'', ''D'', ''E''])))))
     = Returns (ResultList (extract_listings {}
          (map sample_listing [''A'', ''B'', ''N/A'', ''D'', ''E''])))
   \<and> (\<exists>s'. seq (slot (sample_env (\<lambda>k. True) (\<lambda>i. True)
                 (Returns (ResultList (extract_listings {}
                    (map sample_listing [''A'', ''B'', ''N/A'', ''D'', ''E'']))))))
           (fst (run (sample_env (\<lambda>k. True) (\<lambda>i. True)
                 (Returns (ResultList (extract_listings {}
                    (map sample_listing [''A'', ''B'', ''N/A'', ''D'', ''E''])))))
               30))
           sample_store_gui = Inr s'
        \<and> list_all (\<lambda>r. has_name (j_name r))
            (justdial_table (sample_env (\<lambda>k. True) (\<lambda>i. True)
                 (Returns (ResultList (extract_listings {}
                    (map sample_listing [''A'', ''B'', ''N/A'', ''D'', ''E''])))))
               s')
        \<and> length (justdial_table (sample_env (\<lambda>k. True) (\<lambda>i. True)
                 (Returns (ResultList (extract_listings {}
                    (map sample_listing [''A'', ''B'', ''N/A'', ''D'', ''E''])))))
               s') = 4)
   \<and> ([], []) \<notin> set (maps_keys (maps_table (sample_env (\<lambda>k. True) (\<lambda>i. True) (Returns NotAList))
                                  sample_store_gui))
   \<and> (\<exists>s1. got_place (sample_env (\<lambda>k. True) (\<lambda>i. True) (Returns NotAList)) (lit ''t'') None
              sample_store_gui = Inr s1
        \<and> maps_keys (maps_table (sample_env (\<lambda>k. True) (\<lambda>i. True) (Returns NotAList)) s1)
           = [([], [])])"
proof -
  let ?L = "map sample_listing [''A'', ''B'', ''N/A'', ''D'', ''E'']"
  let ?E = "sample_env (\<lambda>k. True) (\<lambda>i. True) (Returns (ResultList (extract_listings {} ?L)))"
  let ?M = "sample_env (\<lambda>k. True) (\<lambda>i. True) (Returns NotAList)"
  let ?G = "sample_store_gui"
  note T = snapshot_discards_nameless
  have rj: "run_javascript ?E = Returns (ResultList (extract_listings {} ?L))"
    by (simp add: sample_env_def)
  have t0: "justdial_table ?E ?G = []" by code_simp
  have m0: "maps_keys (maps_table ?M ?G) = []" by code_simp
  have "map_sum id (\<lambda>s. map j_name (justdial_table ?E s))
          (seq (slot ?E) (fst (run ?E 30)) ?G)
        = Inr [lit ''A'', lit ''B'', lit ''D'', lit ''E'']"
    using T by blast
  then obtain s' where s': "seq (slot ?E) (fst (run ?E 30)) ?G = Inr s'"
      "map j_name (justdial_table ?E s') = [lit ''A'', lit ''B'', lit ''D'', lit ''E'']"
    by (cases "seq (slot ?E) (fst (run ?E 30)) ?G") auto
  have "list_all (\<lambda>r. r \<in> set (justdial_table ?E ?G) \<or> has_name (j_name r)) (justdial_table ?E s')"
    using T[where env = ?E and listings = ?L and c = 30 and s = ?G and s' = s'] rj s'(1) by blast
  then have a: "list_all (\<lambda>r. has_name (j_name r)) (justdial_table ?E s')"
    by (simp only: t0 list.set empty_iff simp_thms)
  have "length (map j_name (justdial_table ?E s')) = 4" by (simp only: s'(2)) simp
  then have b: "length (justdial_table ?E s') = 4" by simp
  have c: "([], []) \<notin> set (maps_keys (maps_table ?M ?G))"
    by (simp only: m0 list.set empty_iff simp_thms)
  have "map_sum id (\<lambda>s. ()) (got_place ?M (lit ''t'') None ?G) = Inr ()" by code_simp
  then obtain s1 where s1: "got_place ?M (lit ''t'') None ?G = Inr s1"
    by (cases "got_place ?M (lit ''t'') None ?G") auto
  have "maps_keys (maps_table ?M s1) = maps_keys (maps_table ?M ?G) @ [([], [])]"
    using T[where env = ?M and s = ?G and ts = "lit ''t''" and ?s1.0 = s1] c s1 by blast
  then have d: "maps_keys (maps_table ?M s1) = [([], [])]" by (simp only: m0 append_Nil)
  from rj s'(1) a b c s1 d show ?thesis by blast
qed

section \<open>Table names\<close>

lemma lower_ascii:
  assumes "list_all (\<lambda>c. c < 128) s"
  shows "lower U s = map ascii_lower s"
proof -
  have "map (\<lambda>i. if s ! i < 128 then [ascii_lower (s ! i)] else U s i) [0..<length s]
        = map (\<lambda>i. [ascii_lower (s ! i)]) [0..<length s]"
    using assms by (auto simp: list_all_length)
  also have "concat \<dots> = map (\<lambda>i. ascii_lower (s ! i)) [0..<length s]"
    by (simp add: concat_map_singleton)
  also have "\<dots> = map ascii_lower s"
    by (simp add: map_nth flip: map_map[unfolded comp_def])
  finally show ?thesis by (simp add: lower_def)
qed

lemma word_char_ascii: "word_char c \<Longrightarrow> c < 128 \<and> ascii_lower c = c"
  by (auto simp: word_char_def ascii_lower_def)

lemma lower_keeps_underscore: "95 \<in> set (lower U (k @ lit ''_'' @ l))"
proof -
  let ?s = "k @ lit ''_'' @ l"
  have i: "length k < length ?s" by (simp add: lit_def)
  have e: "?s ! length k = 95" by (simp add: lit_def nth_append)
  have "95 \<in> set (if ?s ! length k < 128 then [ascii_lower (?s ! length k)]
                   else U ?s (length k))"
    unfolding e by (simp add: ascii_lower_def)
  moreover have "length k \<in> set [0..<length ?s]" using i by simp
  ultimately show ?thesis unfolding lower_def set_concat set_map by blast
qed

lemma normalize_has_underscore: "95 \<in> set (normalize_table_name U k l)"
  using lower_keeps_underscore[of U k l]
  by (auto simp: normalize_table_name_def Let_def re_sub_strip_def replace_def word_char_def)

lemma normalize_word_chars: "list_all word_char (normalize_table_name U k l)"
  by (simp add: normalize_table_name_def Let_def re_sub_strip_def list_all_iff)

lemma strip_after_replace:
  "filter word_char (map (\<lambda>c. if c = 32 then 95 else c) s)
   = concat (map (\<lambda>c. if c = 32 then [95] else if word_char c then [c] else []) s)"
  by (induction s) (auto simp: word_char_def)

lemma normalize_lower_fixed:
  "lower U (normalize_table_name U k l) = normalize_table_name U k l"
proof -
  have a: "list_all word_char (normalize_table_name U k l)" by (rule normalize_word_chars)
  then have "list_all (\<lambda>c. c < 128) (normalize_table_name U k l)"
    by (auto simp: list_all_iff dest: word_char_ascii)
  then have "lower U (normalize_table_name U k l) = map ascii_lower (normalize_table_name U k l)"
    by (rule lower_ascii)
  also have "\<dots> = normalize_table_name U k l"
    using a by (intro map_idI) (auto simp: list_all_iff dest: word_char_ascii)
  finally show ?thesis .
qed

lemma normalize_ascii:
  assumes "list_all (\<lambda>c. c < 128) (k @ l)"
  shows "normalize_table_name U k l
         = filter word_char (map (\<lambda>c. if c = 32 then 95 else ascii_lower c) k) @ [95]
           @ filter word_char (map (\<lambda>c. if c = 32 then 95 else ascii_lower c) l)"
proof -
  have "list_all (\<lambda>c. c < 128) (k @ lit ''_'' @ l)"
    using assms by (simp add: lit_def)
  then have "lower U (k @ lit ''_'' @ l) = map ascii_lower (k @ lit ''_'' @ l)"
    by (rule lower_ascii)
  moreover have "(\<lambda>c. if ascii_lower c = 32 then 95 else ascii_lower c)
                 = (\<lambda>c. if c = 32 then 95 else ascii_lower c)"
    by (auto simp: ascii_lower_def fun_eq_iff)
  ultimately show ?thesis
    by (simp add: normalize_table_name_def Let_def re_sub_strip_def replace_def lit_def
                  comp_def ascii_lower_def word_char_def)
qed

lemma normalize_underscore_iff:
  assumes "list_all (\<lambda>c. c < 128) (k @ l)"
  shows "normalize_table_name U k l = lit ''_''
         \<longleftrightarrow> list_all (\<lambda>c. c \<noteq> 32 \<and> \<not> word_char (ascii_lower c)) (k @ l)"
proof -
  have f: "filter word_char (map (\<lambda>c. if c = 32 then 95 else ascii_lower c) s) = []
           \<longleftrightarrow> list_all (\<lambda>c. c \<noteq> 32 \<and> \<not> word_char (ascii_lower c)) s" for s
    by (induction s) (auto simp: word_char_def)
  have "normalize_table_name U k l = lit ''_''
        \<longleftrightarrow> filter word_char (map (\<lambda>c. if c = 32 then 95 else ascii_lower c) k) = []
            \<and> filter word_char (map (\<lambda>c. if c = 32 then 95 else ascii_lower c) l) = []"
    unfolding normalize_ascii[OF assms] by (simp add: lit_def append_eq_Cons_conv)
  then show ?thesis unfolding f by simp
qed

text \<open>
  Claim C2.  \<open>normalize_table_name\<close> is a function of the keyword and the location alone
  (it reads nothing else, so equal arguments give equal results).  Its result consists of
  characters of \<open>[a-z0-9_]\<close> only and is lower-case: it has no letter \<open>A..Z\<close> and
  \<open>lower\<close> leaves it as it is.  It is the lower-cased \<open>keyword_location\<close> in which every
  space has become an underscore and every other character outside the class is dropped.
  For \<open>"Cafes"\<close> and \<open>"Pune"\<close> it is \<open>"cafes_pune"\<close>.
\<close>

theorem normalize_table_name_safe:
  "list_all word_char (normalize_table_name U keyword location)
   \<and> list_all (\<lambda>c. c < 65 \<or> 90 < c) (normalize_table_name U keyword location)
   \<and> lower U (normalize_table_name U keyword location) = normalize_table_name U keyword location
   \<and> normalize_table_name U keyword location
       = concat (map (\<lambda>c. if c = 32 then [95] else if word_char c then [c] else [])
                     (lower U (keyword @ lit ''_'' @ location)))
   \<and> normalize_table_name U (lit ''Cafes'') (lit ''Pune'') = lit ''cafes_pune''"
proof -
  have a: "list_all word_char (normalize_table_name U keyword location)"
    by (rule normalize_word_chars)
  have b: "list_all (\<lambda>c. c < 65 \<or> 90 < c) (normalize_table_name U keyword location)"
    using a by (auto simp: list_all_iff word_char_def)
  have c: "normalize_table_name U keyword location
       = concat (map (\<lambda>c. if c = 32 then [95] else if word_char c then [c] else [])
                     (lower U (keyword @ lit ''_'' @ location)))"
    by (simp add: normalize_table_name_def Let_def re_sub_strip_def replace_def
        strip_after_replace)
  have d: "normalize_table_name U (lit ''Cafes'') (lit ''Pune'') = lit ''cafes_pune''"
    by code_simp
  from a b c d normalize_lower_fixed[of U keyword location] show ?thesis by blast
qed

text \<open>
  Claim C10 says that some non-empty keyword and location give the empty table name.
  None do, whatever the case table: the underscore that joins keyword and location
  survives every step.
\<close>

theorem normalize_table_name_empty_counterexample:
  "\<not> (\<exists>U keyword location.
        keyword \<noteq> [] \<and> location \<noteq> [] \<and> normalize_table_name U keyword location = [])"
proof
  assume "\<exists>U keyword location.
        keyword \<noteq> [] \<and> location \<noteq> [] \<and> normalize_table_name U keyword location = []"
  then obtain U k l where "normalize_table_name U k l = ([]::pystr)" by blast
  with normalize_has_underscore[of U k l] show False by simp
qed

text \<open>
  Claim C10, amended.  The table name is never empty: it always contains the underscore
  that joins keyword and location.  For a keyword and a location of ASCII characters, it
  is the single underscore \<open>"_"\<close> exactly when none of these characters is a letter (of
  either case), a digit, an underscore or a space; so it is for \<open>"!!!"\<close> and \<open>"???"\<close>,
  whatever the case table, and it is not for \<open>"A"\<close> and \<open>"B"\<close>, which give \<open>"a_b"\<close>.
\<close>

theorem normalize_table_name_nonempty:
  "normalize_table_name U keyword location \<noteq> []
   \<and> 95 \<in> set (normalize_table_name U keyword location)
   \<and> (list_all (\<lambda>c. c < 128) (keyword @ location) \<longrightarrow>
        (normalize_table_name U keyword location = lit ''_''
         \<longleftrightarrow> list_all (\<lambda>c. c \<noteq> 32 \<and> \<not> word_char (ascii_lower c)) (keyword @ location)))
   \<and> normalize_table_name U (lit ''!!!'') (lit ''???'') = lit ''_''
   \<and> normalize_table_name U (lit ''A'') (lit ''B'') = lit ''a_b''"
proof -
  have a: "95 \<in> set (normalize_table_name U keyword location)"
    by (rule normalize_has_underscore)
  then have b: "normalize_table_name U keyword location \<noteq> []" by auto
  have c: "normalize_table_name U (lit ''!!!'') (lit ''???'') = lit ''_''"
    by code_simp
  have d: "list_all (\<lambda>c. c < 128) (keyword @ location) \<longrightarrow>
        (normalize_table_name U keyword location = lit ''_''
         \<longleftrightarrow> list_all (\<lambda>c. c \<noteq> 32 \<and> \<not> word_char (ascii_lower c)) (keyword @ location))"
    using normalize_underscore_iff[of keyword location U] by blast
  have e: "normalize_table_name U (lit ''A'') (lit ''B'') = lit ''a_b''"
    by code_simp
  from a b c d e show ?thesis by blast
qed

theorem normalize_table_name_nonempty_witness:
  "list_all (\<lambda>c. c < 128) (lit ''#1 !'' @ lit ''?-.'')
   \<and> \<not> list_all (\<lambda>c. c \<noteq> 32 \<and> \<not> word_char (ascii_lower c)) (lit ''#1 !'' @ lit ''?-.'')
   \<and> normalize_table_name (\<lambda>s i. []) (lit ''#1 !'') (lit ''?-.'') \<noteq> lit ''_''
   \<and> list_all (\<lambda>c. c < 128) (lit ''!!!'' @ lit ''???'')
   \<and> list_all (\<lambda>c. c \<noteq> 32 \<and> \<not> word_char (ascii_lower c)) (lit ''!!!'' @ lit ''???'')
   \<and> normalize_table_name (\<lambda>s i. []) (lit ''!!!'') (lit ''???'') = lit ''_''
   \<and> list_all (\<lambda>c. c < 128) (lit ''A'' @ lit ''B'')
   \<and> \<not> list_all (\<lambda>c. c \<noteq> 32 \<and> \<not> word_char (ascii_lower c)) (lit ''A'' @ lit ''B'')
   \<and> normalize_table_name (\<lambda>s i. []) (lit ''A'') (lit ''B'') \<noteq> lit ''_''"
proof -
  have 1: "list_all (\<lambda>c. c < 128) (lit ''#1 !'' @ lit ''?-.'')" by code_simp
  have 2: "\<not> list_all (\<lambda>c. c \<noteq> 32 \<and> \<not> word_char (ascii_lower c)) (lit ''#1 !'' @ lit ''?-.'')"
    by code_simp
  have 3: "list_all (\<lambda>c. c < 128) (lit ''!!!'' @ lit ''???'')" by code_simp
  have 4: "list_all (\<lambda>c. c \<noteq> 32 \<and> \<not> word_char (ascii_lower c)) (lit ''!!!'' @ lit ''???'')"
    by code_simp
  have 5: "list_all (\<lambda>c. c < 128) (lit ''A'' @ lit ''B'')" by code_simp
  have 6: "\<not> list_all (\<lambda>c. c \<noteq> 32 \<and> \<not> word_char (ascii_lower c)) (lit ''A'' @ lit ''B'')"
    by code_simp
  have 7: "normalize_table_name (\<lambda>s i. []) (lit ''#1 !'') (lit ''?-.'') \<noteq> lit ''_''"
    using normalize_table_name_nonempty[of "\<lambda>s i. []" "lit ''#1 !''" "lit ''?-.''"] 1 2
    by blast
  have 8: "normalize_table_name (\<lambda>s i. []) (lit ''!!!'') (lit ''???'') = lit ''_''"
    using normalize_table_name_nonempty[of "\<lambda>s i. []" "lit ''!!!''" "lit ''???''"] 3 4
    by blast
  have 9: "normalize_table_name (\<lambda>s i. []) (lit ''A'') (lit ''B'') \<noteq> lit ''_''"
    using normalize_table_name_nonempty[of "\<lambda>s i. []" "lit ''A''" "lit ''B''"] 5 6
    by blast
  from 1 2 3 4 5 6 7 8 9 show ?thesis by blast
qed

end
